theory Spec2Isabelle
  imports Main "HOL-Library.Char_ord" "HOL-Library.List_Lexorder" "HOL-Library.AList"
begin

section \<open>The seed script (scripts/seed/index.ts)\<close>

text \<open>
  The script reads fixture files, upserts asset-pack and asset rows and mirrors thumbnails
  and content files into a bucket. Everything it touches outside its own text (the file
  system, the HTTP host, the bucket, the database, the order in which pending operations
  complete) is a parameter or a piece of explicit state here:
  \<^item> JavaScript strings and Buffers are \<open>string\<close> (a list of code units);
  \<^item> a thrown or rejected \<open>Error\<close> is a value of type \<open>error\<close>;
  \<^item> every line printed and every call made to an outside service is an \<open>event\<close> of
    the trace, in the order the script performs them.
\<close>

subsection \<open>Data\<close>

type_synonym bytes = string

datatype error = Error string

fun message :: "error \<Rightarrow> string" where
  "message (Error m) = m"

text \<open>The fixture types \<open>DefaultAssetPack\<close> and \<open>DefaultAsset\<close> (lines 15-30).\<close>

record DefaultAssetPack =
  pack_id :: string
  pack_title :: string
  pack_url :: string
  pack_thumbnail :: string

record DefaultAsset =
  asset_id :: string
  asset_name :: string
  asset_thumbnail :: string
  asset_url :: string
  asset_category :: string
  asset_tags :: "string list"
  asset_variations :: "string list"
  asset_contents :: "(string \<times> string) list"

text \<open>
  What \<open>JSON.parse\<close> returns, seen through the two response types of lines 32-46:
  \<open>PacksJSON ok packs\<close> is a \<open>DefaultAssetPackResponse\<close>, \<open>AssetsJSON ok id version title assets\<close>
  a \<open>DefaultAssetResponse\<close>, \<open>OtherJSON\<close> a document without a \<open>data\<close> object.
\<close>

datatype json =
    PacksJSON bool "DefaultAssetPack list"
  | AssetsJSON bool string nat string "DefaultAsset list"
  | OtherJSON

text \<open>
  Attribute objects handed to the models. An object is the list of its own properties in
  insertion order, each name at most once.
\<close>

datatype jsval =
    JString string
  | JStrings "string list"
  | JRecord "(string \<times> string) list"
  | JDate nat

type_synonym obj = "(string \<times> jsval) list"

definition DefaultAssetPack_obj :: "DefaultAssetPack \<Rightarrow> obj" where
  "DefaultAssetPack_obj p =
     [(''id'', JString (pack_id p)), (''title'', JString (pack_title p)),
      (''url'', JString (pack_url p)), (''thumbnail'', JString (pack_thumbnail p))]"

definition DefaultAsset_obj :: "DefaultAsset \<Rightarrow> obj" where
  "DefaultAsset_obj a =
     [(''id'', JString (asset_id a)), (''name'', JString (asset_name a)),
      (''thumbnail'', JString (asset_thumbnail a)), (''url'', JString (asset_url a)),
      (''category'', JString (asset_category a)), (''tags'', JStrings (asset_tags a)),
      (''variations'', JStrings (asset_variations a)),
      (''contents'', JRecord (asset_contents a))]"

text \<open>\<open>utils.omit(object, keys)\<close> of decentraland-commons: a copy without the named keys.\<close>

definition omit :: "obj \<Rightarrow> string list \<Rightarrow> obj" where
  "omit object ks = filter (\<lambda>(k, v). k \<notin> set ks) object"

text \<open>
  The object literal \<open>{ ...object, k1: v1, k2: v2 }\<close>: the properties that follow the spread
  are assigned in turn; an assignment replaces the value of a name the object has and adds
  the name at the end otherwise.
\<close>

definition spread :: "obj \<Rightarrow> obj \<Rightarrow> obj" where
  "spread object props = fold (\<lambda>(k, v) acc. AList.update k v acc) props object"

text \<open>
  \<open>path.basename\<close> of Node (posix): trailing separators are skipped, then the characters
  back to the previous separator are the result (the empty string when there are none).
\<close>

definition basename :: "string \<Rightarrow> string" where
  "basename p = rev (takeWhile (\<lambda>c. c \<noteq> CHR ''/'') (dropWhile (\<lambda>c. c = CHR ''/'') (rev p)))"

text \<open>\<open>ACL\<close> of the S3 module. Modelled from the spec: the access-control enum is not in the sources;
  the script only uses \<open>ACL.publicRead\<close>.\<close>

datatype ACL = privateAcl | publicRead

subsection \<open>The outside world\<close>

text \<open>
  The answer of the HTTPS transport to one \<open>https.get\<close>: either the request itself fails
  (the \<open>'error'\<close> event of the request object: no response arrives), or a response with a
  status code arrives, delivers \<open>'data'\<close> chunks and finishes with \<open>'end'\<close> (\<open>None\<close>) or
  with an \<open>'error'\<close> event of the response (\<open>Some e\<close>). A response that never finishes is
  not modelled (the script sets no timeout: it would wait for ever).
\<close>

datatype http_outcome =
    RequestError error
  | Response nat "bytes list" "error option"

text \<open>
  The state of a promise once the transport has answered: fulfilled, rejected, or left
  pending for ever by an \<open>'error'\<close> event that found no listener (\<open>Unhandled e\<close>; Node
  throws such an event as an uncaught exception, which ends the process).
\<close>

datatype 'a settled = Fulfilled 'a | Rejected error | Unhandled error

text \<open>
  The environment of one run: \<open>__dirname\<close>, the file system (\<open>fs.readdirSync\<close> with
  \<open>withFileTypes\<close> gives names and whether each is a directory; \<open>fs.readFileSync\<close> gives
  the contents or throws), \<open>JSON.parse\<close>, \<open>env.isProduction()\<close>, and what the modules that
  are not in the sources compute: the thumbnail filename of a pack
  (\<open>S3AssetPack.getThumbnailFilename\<close>), the bucket key each of the two S3 clients
  addresses, \<open>getDefaultEthAddress()\<close>, the value of \<open>new Date()\<close>, whether
  \<open>new S3Content()\<close> throws, and whether \<open>db.connect()\<close> rejects.
\<close>

record env =
  dirname :: string
  readdirSync :: "string \<Rightarrow> (string \<times> bool) list"
  fs_readFileSync :: "string \<Rightarrow> error + bytes"
  JSON_parse :: "bytes \<Rightarrow> error + json"
  isProduction :: bool
  getThumbnailFilename :: "string \<Rightarrow> string"
  packFileKey :: "string \<Rightarrow> string \<Rightarrow> string"
  contentFileKey :: "string \<Rightarrow> string"
  getDefaultEthAddress :: string
  now :: nat
  new_S3Content :: "error option"
  db_connect :: "error option"

text \<open>What the script does that can be seen from outside, in order.\<close>

datatype event =
    Log string
  | ConsoleError error
  | FsRead string
  | S3Check string bool
  | HttpGet string
  | S3Save string bytes ACL
  | UpsertPackRow obj
  | UpsertAssetRow obj "string list"

subsection \<open>Fixture reader (lines 174-204)\<close>

definition getDirectories :: "env \<Rightarrow> string \<Rightarrow> string list" where
  "getDirectories env source = map fst (filter snd (readdirSync env source))"

text \<open>\<open>Array.prototype.pop\<close>: the last element, \<open>undefined\<close> (\<open>None\<close>) on an empty array.\<close>

definition pop :: "'a list \<Rightarrow> 'a option" where
  "pop xs = (if xs = [] then None else Some (last xs))"

text \<open>A template literal prints \<open>undefined\<close> as the nine letters.\<close>

definition getDataPath :: "env \<Rightarrow> string" where
  "getDataPath env =
     (let dataDirectories = sort (getDirectories env (dirname env));
          lastData = pop dataDirectories
      in dirname env @ ''/'' @ (case lastData of None \<Rightarrow> ''undefined'' | Some d \<Rightarrow> d))"

definition readFileSync :: "env \<Rightarrow> string \<Rightarrow> event list \<times> (error + bytes)" where
  "readFileSync env filename =
     (let dataPath = getDataPath env;
          path = dataPath @ ''/'' @ filename
      in ([Log (''Reading file '' @ path), FsRead path], fs_readFileSync env path))"

definition readJSON :: "env \<Rightarrow> string \<Rightarrow> event list \<times> (error + json)" where
  "readJSON env filename =
     (case readFileSync env filename of
        (evs, Inl e) \<Rightarrow> (evs, Inl e)
      | (evs, Inr text) \<Rightarrow> (evs, JSON_parse env text))"

subsection \<open>Remote content fetcher (lines 154-172, 188-191)\<close>

definition getAssetsUrl :: "env \<Rightarrow> string" where
  "getAssetsUrl env =
     (let domain = (if isProduction env then ''org'' else ''zone'')
      in ''https://assets.decentraland.'' @ domain)"

text \<open>
  The promise of \<open>downloadAsset\<close>: the callback of \<open>https.get\<close> registers \<open>'data'\<close>,
  \<open>'end'\<close> and \<open>'error'\<close> listeners on the response. Nothing listens on the request, so
  when the request fails neither \<open>resolve\<close> nor \<open>reject\<close> is ever called.
\<close>

fun on_response :: "http_outcome \<Rightarrow> bytes settled" where
  "on_response (RequestError e) = Unhandled e"
| "on_response (Response status chunks None) = Fulfilled (concat chunks)"
| "on_response (Response status chunks (Some e)) = Rejected e"

definition downloadAsset_request :: "env \<Rightarrow> string \<Rightarrow> event list" where
  "downloadAsset_request env cid =
     (let url = getAssetsUrl env @ ''/'' @ cid in [Log (''Downloading '' @ url), HttpGet url])"

definition downloadAsset :: "env \<Rightarrow> string \<Rightarrow> http_outcome \<Rightarrow> event list \<times> bytes settled" where
  "downloadAsset env cid h = (downloadAsset_request env cid, on_response h)"

subsection \<open>Object store and database\<close>

text \<open>
  Modelled from the spec: the S3 clients (\<open>S3AssetPack\<close>, \<open>S3Content\<close>) are not in the
  sources. The bucket maps a key to the bytes and the access-control setting written under
  it; the existence check answers whether the key is there and a write stores the bytes
  under the key.
\<close>

type_synonym bucket = "(string \<times> bytes \<times> ACL) list"

definition checkFile :: "string \<Rightarrow> bucket \<Rightarrow> bool" where
  "checkFile key b = (map_of b key \<noteq> None)"

definition saveFile :: "string \<Rightarrow> bytes \<Rightarrow> ACL \<Rightarrow> bucket \<Rightarrow> bucket" where
  "saveFile key file acl b = AList.update key (file, acl) b"

text \<open>
  Modelled from the spec: the models (\<open>AssetPack\<close>, \<open>Asset\<close>) and their \<open>upsert\<close> are not
  in the sources. A table is the list of its rows; \<open>upsert\<close> with a conflict target
  inserts the record when no row agrees with it on the target columns and otherwise
  updates that row in place with the record's attributes. Without an explicit target the
  single key \<open>id\<close> decides.
\<close>

definition row_key :: "string list \<Rightarrow> obj \<Rightarrow> jsval option list" where
  "row_key target row = map (map_of row) target"

fun upsert :: "string list \<Rightarrow> obj \<Rightarrow> obj list \<Rightarrow> obj list" where
  "upsert target r [] = [r]"
| "upsert target r (x # xs) =
     (if row_key target x = row_key target r then spread x r # xs
      else x # upsert target r xs)"

record world =
  asset_packs :: "obj list"
  assets :: "obj list"
  s3 :: bucket
  trace :: "(nat \<times> event) list"

text \<open>
  Events carry the number of the batch they belong to: 0 for the pack phase, \<open>i + 1\<close> for
  the asset batch of the \<open>i\<close>-th pack of \<open>packs.json\<close>.
\<close>

definition emit :: "nat \<Rightarrow> event list \<Rightarrow> world \<Rightarrow> world" where
  "emit b evs w = w\<lparr>trace := trace w @ map (Pair b) evs\<rparr>"

subsection \<open>Pending operations\<close>

text \<open>
  A promise chain of the script is, at any moment, waiting for one outside operation:
  \<^item> \<open>CheckThumbnail p\<close>: \<open>uploadThumbnail\<close> at line 142, awaiting \<open>checkFile(filename)\<close>;
  \<^item> \<open>SaveThumbnail p file\<close>: line 148, awaiting \<open>saveFile(filename, currentThumbnail, publicRead)\<close>;
  \<^item> \<open>UpsertAssetPack attributes\<close>: line 78, \<open>new AssetPack(attributes).upsert()\<close>;
  \<^item> \<open>UpsertAsset attributes target\<close>: line 105, \<open>new Asset(attributes).upsert({ target })\<close>;
  \<^item> \<open>CheckContent cid\<close>: line 112, \<open>s3Content.checkFile(cid)\<close>;
  \<^item> \<open>DownloadContent cid\<close>: line 116, awaiting \<open>downloadAsset(cid)\<close>;
  \<^item> \<open>SaveContent cid file\<close>: line 119, awaiting \<open>saveFile(cid, file, publicRead)\<close>.
\<close>

datatype pending =
    CheckThumbnail DefaultAssetPack
  | SaveThumbnail DefaultAssetPack bytes
  | UpsertAssetPack obj
  | UpsertAsset obj "string list"
  | CheckContent string
  | DownloadContent string
  | SaveContent string bytes

text \<open>
  What the completion of the awaited operation leads to: the chain waits for its next
  operation, its promise is fulfilled, its promise is rejected, or the process dies of an
  uncaught exception.
\<close>

datatype progress = Continue pending | Finished | Failed error | Uncaught error

text \<open>
  The moment an operation completes, and how, is the outside world's choice. A \<open>reply\<close> is
  one such choice: which pending operation completes next (\<open>pick\<close>, counted round the list
  of pending operations), whether the service fails it (\<open>io_error\<close>) and, for a download,
  what the transport answers (\<open>http\<close>). A schedule gives the reply of every step.
\<close>

record reply =
  pick :: nat
  io_error :: "error option"
  http :: http_outcome

type_synonym schedule = "nat \<Rightarrow> reply"

type_synonym task = "nat \<times> pending"

subsection \<open>Pack phase (lines 59-85, 138-152)\<close>

text \<open>A property printed by a template literal.\<close>

definition print_prop :: "obj \<Rightarrow> string \<Rightarrow> string" where
  "print_prop object k = (case map_of object k of Some (JString s) \<Rightarrow> s | _ \<Rightarrow> ''undefined'')"

text \<open>The callback of \<open>uploadThumbnail(defaultAssetPack).then\<close> (lines 65-79).\<close>

definition assetPackAttributes :: "env \<Rightarrow> DefaultAssetPack \<Rightarrow> string \<Rightarrow> obj" where
  "assetPackAttributes env defaultAssetPack thumbnail =
     spread (omit (DefaultAssetPack_obj defaultAssetPack) [''url''])
       [(''thumbnail'', JString thumbnail),
        (''eth_address'', JString (getDefaultEthAddress env)),
        (''created_at'', JDate (now env)),
        (''updated_at'', JDate (now env))]"

definition upsertAssetPack_then :: "env \<Rightarrow> DefaultAssetPack \<Rightarrow> string \<Rightarrow> event list \<times> progress" where
  "upsertAssetPack_then env defaultAssetPack thumbnail =
     (let attributes = assetPackAttributes env defaultAssetPack thumbnail
      in ([Log (''Upserting asset pack '' @ print_prop attributes ''id'' @ '' for user ''
                 @ print_prop attributes ''eth_address'')],
          Continue (UpsertAssetPack attributes)))"

subsection \<open>Asset phase: what one pack dispatches (lines 93-129)\<close>

definition assetAttributes :: "string \<Rightarrow> DefaultAsset \<Rightarrow> obj" where
  "assetAttributes pid defaultAttributes =
     (let thumbnail = basename (asset_thumbnail defaultAttributes)
      in spread (omit (DefaultAsset_obj defaultAttributes) [''variations'', ''url''])
           [(''thumbnail'', JString thumbnail),
            (''model'', JString (asset_url defaultAttributes)),
            (''asset_pack_id'', JString pid)])"

text \<open>
  One turn of the loop over the assets. Nothing is awaited in it: the upsert and one
  existence check per content identifier are started and pushed. The \<open>try\<close> block can
  only be left by a synchronous throw, which here is \<open>new S3Content()\<close> failing; the
  rejection of a pushed promise does not reach its \<open>catch\<close>.
\<close>

definition dispatch_asset :: "env \<Rightarrow> string \<Rightarrow> DefaultAsset \<Rightarrow> event list \<times> pending list" where
  "dispatch_asset env pid defaultAttributes =
     (let attributes = assetAttributes pid defaultAttributes;
          logged = [Log (''Upserting asset '' @ print_prop attributes ''id''
                         @ '' for asset pack '' @ pid)];
          upsertPromise = UpsertAsset attributes [''id'', ''asset_pack_id'']
      in case new_S3Content env of
           Some e \<Rightarrow> (logged @ [Log (''Ignoring ERROR: '' @ message e)], [upsertPromise])
         | None \<Rightarrow>
             (logged, upsertPromise # map CheckContent (map snd (asset_contents defaultAttributes))))"

definition dispatch_assets :: "env \<Rightarrow> string \<Rightarrow> DefaultAsset list \<Rightarrow> event list \<times> pending list" where
  "dispatch_assets env pid as =
     (concat (map (\<lambda>a. fst (dispatch_asset env pid a)) as),
      concat (map (\<lambda>a. snd (dispatch_asset env pid a)) as))"

subsection \<open>Completion of one pending operation\<close>

fun advance :: "env \<Rightarrow> reply \<Rightarrow> pending \<Rightarrow> world \<Rightarrow> event list \<times> progress \<times> world" where
  "advance env r (CheckThumbnail p) w =
     (case io_error r of
        Some e \<Rightarrow> ([], Failed e, w)
      | None \<Rightarrow>
          (let filename = getThumbnailFilename env (pack_id p);
               key = packFileKey env (pack_id p) filename
           in if checkFile key (s3 w)
              then (case upsertAssetPack_then env p filename of
                      (evs, pr) \<Rightarrow>
                        ([S3Check key True, Log ''Thumbnail already exists in S3''] @ evs, pr, w))
              else (case readFileSync env filename of
                      (evs, Inl e) \<Rightarrow> (S3Check key False # evs, Failed e, w)
                    | (evs, Inr currentThumbnail) \<Rightarrow>
                        (S3Check key False # evs @ [Log ''Uploading thumbnail to S3''],
                         Continue (SaveThumbnail p currentThumbnail), w))))"
| "advance env r (SaveThumbnail p currentThumbnail) w =
     (case io_error r of
        Some e \<Rightarrow> ([], Failed e, w)
      | None \<Rightarrow>
          (let filename = getThumbnailFilename env (pack_id p);
               key = packFileKey env (pack_id p) filename
           in case upsertAssetPack_then env p filename of
                (evs, pr) \<Rightarrow>
                  (S3Save key currentThumbnail publicRead # evs, pr,
                   w\<lparr>s3 := saveFile key currentThumbnail publicRead (s3 w)\<rparr>)))"
| "advance env r (UpsertAssetPack attributes) w =
     (case io_error r of
        Some e \<Rightarrow> ([], Failed e, w)
      | None \<Rightarrow>
          ([UpsertPackRow attributes], Finished,
           w\<lparr>asset_packs := upsert [''id''] attributes (asset_packs w)\<rparr>))"
| "advance env r (UpsertAsset attributes target) w =
     (case io_error r of
        Some e \<Rightarrow> ([], Failed e, w)
      | None \<Rightarrow>
          ([UpsertAssetRow attributes target], Finished,
           w\<lparr>assets := upsert target attributes (assets w)\<rparr>))"
| "advance env r (CheckContent cid) w =
     (case io_error r of
        Some e \<Rightarrow> ([], Failed e, w)
      | None \<Rightarrow>
          (let key = contentFileKey env cid
           in if checkFile key (s3 w)
              then ([S3Check key True, Log (''File '' @ cid @ '' already exists in S3'')],
                    Finished, w)
              else (S3Check key False # downloadAsset_request env cid,
                    Continue (DownloadContent cid), w)))"
| "advance env r (DownloadContent cid) w =
     (case on_response (http r) of
        Fulfilled file \<Rightarrow>
          ([Log (''Uploading file '' @ cid @ '' to S3'')], Continue (SaveContent cid file), w)
      | Rejected e \<Rightarrow> ([], Failed e, w)
      | Unhandled e \<Rightarrow> ([], Uncaught e, w))"
| "advance env r (SaveContent cid file) w =
     (case io_error r of
        Some e \<Rightarrow> ([], Failed e, w)
      | None \<Rightarrow>
          (let key = contentFileKey env cid
           in ([S3Save key file publicRead, Log (''File '' @ cid @ '' uploaded successfully'')],
               Finished, w\<lparr>s3 := saveFile key file publicRead (s3 w)\<rparr>)))"

text \<open>The number of operations a chain may still have to wait for.\<close>

fun weight :: "pending \<Rightarrow> nat" where
  "weight (CheckThumbnail p) = 3"
| "weight (SaveThumbnail p f) = 2"
| "weight (UpsertAssetPack a) = 1"
| "weight (UpsertAsset a t) = 1"
| "weight (CheckContent c) = 3"
| "weight (DownloadContent c) = 2"
| "weight (SaveContent c f) = 1"

definition remove_nth :: "nat \<Rightarrow> 'a list \<Rightarrow> 'a list" where
  "remove_nth i xs = take i xs @ drop (Suc i) xs"

text \<open>
  One step of the event loop: the operation the reply picks completes, its chain runs up to
  its next await, and the chain leaves the list of pending operations when it settles.
\<close>

definition step :: "env \<Rightarrow> reply \<Rightarrow> task list \<Rightarrow> world \<Rightarrow> (nat \<times> progress) \<times> task list \<times> world" where
  "step env r ts w =
     (let i = pick r mod length ts;
          b = fst (ts ! i)
      in case advance env r (snd (ts ! i)) w of
           (evs, pr, w') \<Rightarrow>
             ((b, pr),
              (case pr of Continue p' \<Rightarrow> ts[i := (b, p')] | _ \<Rightarrow> remove_nth i ts),
              emit b evs w'))"

subsection \<open>Awaiting a batch: \<open>await Promise.all(promises)\<close>\<close>

text \<open>
  \<open>Promise.all\<close> is fulfilled once every promise of the batch is, and rejected as soon as
  one of them is; the others then stay pending and go on by themselves. While the script
  waits, pending operations of any batch complete in the order the schedule chooses. A
  rejection in a batch that is no longer awaited is dropped. The list of pending
  operations that is returned holds what is still in flight when the wait is over.
\<close>

datatype awaited = AllFulfilled | FirstRejected error | ProcessCrashed error

function await_all :: "env \<Rightarrow> schedule \<Rightarrow> nat \<Rightarrow> nat \<Rightarrow> task list \<Rightarrow> world \<Rightarrow> awaited \<times> nat \<times> task list \<times> world" where
  "await_all env sch b n ts w =
     (if b \<notin> fst ` set ts then (AllFulfilled, n, ts, w)
      else case step env (sch n) ts w of
             ((b', pr), ts', w') \<Rightarrow>
               (case pr of
                  Uncaught e \<Rightarrow> (ProcessCrashed e, Suc n, ts', w')
                | Failed e \<Rightarrow>
                    if b' = b then (FirstRejected e, Suc n, ts', w')
                    else await_all env sch b (Suc n) ts' w'
                | Continue p' \<Rightarrow> await_all env sch b (Suc n) ts' w'
                | Finished \<Rightarrow> await_all env sch b (Suc n) ts' w'))"
  by pat_completeness auto
termination
proof -
  have adv: "\<And>env r p w evs p' w'. advance env r p w = (evs, Continue p', w') \<Longrightarrow> weight p' < weight p"
    subgoal for env r p w evs p' w'
      by (cases p) (auto simp: upsertAssetPack_then_def Let_def split: option.splits if_splits prod.splits sum.splits settled.splits)
    done
  have pos: "\<And>p. 0 < weight p"
    subgoal for p by (cases p) auto
    done
  have upd: "\<And>(ts :: task list) i b p'. i < length ts \<Longrightarrow> weight p' < weight (snd (ts ! i)) \<Longrightarrow>
      sum_list (map (\<lambda>t. weight (snd t)) (ts[i := (b, p')])) < sum_list (map (\<lambda>t. weight (snd t)) ts)"
    subgoal for ts i b p'
      by (induction ts arbitrary: i) (auto split: nat.splits)
    done
  have rem: "\<And>(ts :: task list) i. i < length ts \<Longrightarrow>
      sum_list (map (\<lambda>t. weight (snd t)) (remove_nth i ts)) < sum_list (map (\<lambda>t. weight (snd t)) ts)"
    subgoal for ts i
      using pos[of "snd (ts ! i)"]
        arg_cong[OF id_take_nth_drop[of i ts], of "\<lambda>xs. sum_list (map (\<lambda>t. weight (snd t)) xs)"]
      by (simp add: remove_nth_def)
    done
  have st: "\<And>env r ts w b pr ts' w'. ts \<noteq> [] \<Longrightarrow> step env r ts w = ((b, pr), ts', w') \<Longrightarrow> \<not> (\<exists>e. pr = Uncaught e) \<Longrightarrow>
      sum_list (map (\<lambda>t. weight (snd t)) ts') < sum_list (map (\<lambda>t. weight (snd t)) ts)"
  proof -
    fix env r and ts :: "task list" and w b pr ts' w'
    assume ne: "ts \<noteq> []" and s: "step env r ts w = ((b, pr), ts', w')" and nu: "\<not> (\<exists>e. pr = Uncaught e)"
    define i where "i = pick r mod length ts"
    have i: "i < length ts" using ne by (simp add: i_def)
    obtain evs w1 where a: "advance env r (snd (ts ! i)) w = (evs, pr, w1)"
      using s by (auto simp: step_def Let_def i_def split: prod.splits)
    have ts': "ts' = (case pr of Continue p' \<Rightarrow> ts[i := (fst (ts ! i), p')] | _ \<Rightarrow> remove_nth i ts)"
      using s a unfolding i_def by (auto simp: step_def Let_def split: prod.splits)
    show "sum_list (map (\<lambda>t. weight (snd t)) ts') < sum_list (map (\<lambda>t. weight (snd t)) ts)"
    proof (cases pr)
      case (Continue p')
      then show ?thesis using adv[of env r "snd (ts ! i)" w evs p' w1] a upd[OF i] ts' by simp
    next
      case Finished
      then show ?thesis using rem[OF i] ts' by simp
    next
      case (Failed e)
      then show ?thesis using rem[OF i] ts' by simp
    next
      case (Uncaught e)
      then show ?thesis using nu by simp
    qed
  qed
  have ne: "\<And>b (ts :: task list). \<not> b \<notin> fst ` set ts \<Longrightarrow> ts \<noteq> []" by auto
  have st2: "\<And>env r ts w b pr ts' w' b0. ((b, pr), ts', w') = step env r ts w \<Longrightarrow> b0 \<in> fst ` set ts \<Longrightarrow> \<not> (\<exists>e. pr = Uncaught e) \<Longrightarrow>
      sum_list (map (\<lambda>t. weight (snd t)) ts') < sum_list (map (\<lambda>t. weight (snd t)) ts)"
    subgoal for env r ts w b pr ts' w' b0
      using st[of ts env r w b pr ts' w'] ne[of b0 ts] by simp
    done
  show ?thesis
    apply (relation "measure (\<lambda>(env, sch, b, n, ts, w). sum_list (map (\<lambda>t. weight (snd t)) ts))")
       apply simp
      apply (auto intro: st2)
    done
qed

subsection \<open>The pipeline (lines 48-57, 59-85, 87-136, 206-217)\<close>

datatype result = Returned | Thrown error | Died error

definition upsertAssetPacks ::
  "env \<Rightarrow> schedule \<Rightarrow> DefaultAssetPack list \<Rightarrow> world \<Rightarrow> awaited \<times> nat \<times> task list \<times> world" where
  "upsertAssetPacks env sch assetPacks w =
     (let assetPackUpserts = map (\<lambda>defaultAssetPack. (0, CheckThumbnail defaultAssetPack)) assetPacks
      in await_all env sch 0 0 assetPackUpserts w)"

text \<open>
  The loop over the packs, from the pack numbered \<open>b\<close> on; \<open>n\<close> counts the steps of the
  schedule used so far and \<open>ts\<close> holds the operations of earlier batches still in flight.
  A fixture whose \<open>data.assets\<close> is missing makes the loop throw a \<open>TypeError\<close>.
\<close>

fun upsertAssets ::
  "env \<Rightarrow> schedule \<Rightarrow> nat \<Rightarrow> DefaultAssetPack list \<Rightarrow> nat \<times> task list \<times> world
     \<Rightarrow> result \<times> nat \<times> task list \<times> world" where
  "upsertAssets env sch b [] (n, ts, w) = (Returned, n, ts, w)"
| "upsertAssets env sch b (p # ps) (n, ts, w) =
     (case readJSON env (pack_id p @ ''.json'') of
        (evs, Inl e) \<Rightarrow> (Thrown e, n, ts, emit b evs w)
      | (evs, Inr (AssetsJSON ok i v t as)) \<Rightarrow>
          (case dispatch_assets env (pack_id p) as of
             (logged, assetPromises) \<Rightarrow>
               (case await_all env sch b n (ts @ map (Pair b) assetPromises)
                       (emit b (evs @ logged) w) of
                  (AllFulfilled, n', ts', w') \<Rightarrow> upsertAssets env sch (Suc b) ps (n', ts', w')
                | (FirstRejected e, n', ts', w') \<Rightarrow>
                    upsertAssets env sch (Suc b) ps
                      (n', ts', emit b [Log (''Error saving assets: '' @ message e)] w')
                | (ProcessCrashed e, n', ts', w') \<Rightarrow> (Died e, n', ts', w')))
      | (evs, Inr _) \<Rightarrow> (Thrown (Error ''TypeError''), n, ts, emit b evs w))"

text \<open>
  \<open>seed\<close>: the result, the number of schedule steps used, the operations still in flight
  when it returns or throws, and the world it leaves.
\<close>

definition seed :: "env \<Rightarrow> schedule \<Rightarrow> world \<Rightarrow> result \<times> nat \<times> task list \<times> world" where
  "seed env sch w =
     (case readJSON env ''packs.json'' of
        (evs, Inl e) \<Rightarrow> (Thrown e, 0, [], emit 0 evs w)
      | (evs, Inr OtherJSON) \<Rightarrow> (Thrown (Error ''TypeError''), 0, [], emit 0 evs w)
      | (evs, Inr (AssetsJSON ok i v t as)) \<Rightarrow>
          (Thrown (Error ''TypeError''), 0, [], emit 0 (evs @ [Log ''==== Asset packs ===='']) w)
      | (evs, Inr (PacksJSON ok assetPacks)) \<Rightarrow>
          (case upsertAssetPacks env sch assetPacks
                  (emit 0 (evs @ [Log ''==== Asset packs ===='']) w) of
             (AllFulfilled, n, ts, w') \<Rightarrow>
               upsertAssets env sch 1 assetPacks (n, ts, emit 0 [Log ''==== Assets ====''] w')
           | (FirstRejected e, n, ts, w') \<Rightarrow> (Thrown e, n, ts, w')
           | (ProcessCrashed e, n, ts, w') \<Rightarrow> (Died e, n, ts, w')))"

text \<open>
  The entry point: connect, seed, report, \<open>process.exit()\<close>. Whatever is still in flight
  when the process exits is abandoned, so the world \<open>seed\<close> left is the final one.
\<close>

definition main :: "env \<Rightarrow> schedule \<Rightarrow> world \<Rightarrow> world" where
  "main env sch w =
     (case db_connect env of
        Some e \<Rightarrow> emit 0 [ConsoleError e] w
      | None \<Rightarrow>
          (case seed env sch w of
             (Returned, n, ts, w') \<Rightarrow> emit 0 [Log ''All done!''] w'
           | (Thrown e, n, ts, w') \<Rightarrow> emit 0 [ConsoleError e] w'
           | (Died e, n, ts, w') \<Rightarrow> w'))"

text \<open>The packs of \<open>packs.json\<close> and the assets of a pack's fixture file, as \<open>readJSON\<close> gives them.\<close>

definition fixture_packs :: "env \<Rightarrow> DefaultAssetPack list" where
  "fixture_packs env =
     (case snd (readJSON env ''packs.json'') of
        Inr (PacksJSON ok assetPacks) \<Rightarrow> assetPacks
      | _ \<Rightarrow> [])"

definition fixture_assets :: "env \<Rightarrow> DefaultAssetPack \<Rightarrow> DefaultAsset list" where
  "fixture_assets env p =
     (case snd (readJSON env (pack_id p @ ''.json'')) of
        Inr (AssetsJSON ok i v t as) \<Rightarrow> as
      | _ \<Rightarrow> [])"

subsection \<open>Predicates on traces\<close>

text \<open>
  \<open>each_justified J seen evs\<close>: every event of \<open>evs\<close> is justified, in the sense of \<open>J\<close>, by
  the events before it (\<open>seen\<close> and the earlier ones of \<open>evs\<close>).
\<close>

fun each_justified :: "('a list \<Rightarrow> 'a \<Rightarrow> bool) \<Rightarrow> 'a list \<Rightarrow> 'a list \<Rightarrow> bool" where
  "each_justified J seen [] = True"
| "each_justified J seen (e # es) = (J seen e \<and> each_justified J (seen @ [e]) es)"

text \<open>
  What has to have happened before an event: a write to the bucket needs an existence
  check of its key that answered no; a download needs such a check of the content's key;
  the upsert of a pack row carries the thumbnail filename instead of the url and needs
  the thumbnail to be in the bucket, either found there by the check or read from the
  data directory and written with public-read access. \<open>promised\<close> says the same of what a
  pending operation is going to do.
\<close>

definition thumbnail_path :: "env \<Rightarrow> string \<Rightarrow> string" where
  "thumbnail_path env pid = getDataPath env @ ''/'' @ getThumbnailFilename env pid"

definition thumbnail_key :: "env \<Rightarrow> string \<Rightarrow> string" where
  "thumbnail_key env pid = packFileKey env pid (getThumbnailFilename env pid)"

definition thumbnail_stored :: "env \<Rightarrow> event list \<Rightarrow> string \<Rightarrow> bool" where
  "thumbnail_stored env seen pid =
     (S3Check (thumbnail_key env pid) True \<in> set seen \<or>
      (case fs_readFileSync env (thumbnail_path env pid) of
         Inl e \<Rightarrow> False
       | Inr file \<Rightarrow>
           FsRead (thumbnail_path env pid) \<in> set seen \<and>
           S3Save (thumbnail_key env pid) file publicRead \<in> set seen))"

fun justified :: "env \<Rightarrow> event list \<Rightarrow> event \<Rightarrow> bool" where
  "justified env seen (S3Save k file acl) = (S3Check k False \<in> set seen)"
| "justified env seen (HttpGet u) =
     (S3Check (contentFileKey env (drop (Suc (length (getAssetsUrl env))) u)) False \<in> set seen)"
| "justified env seen (UpsertPackRow attributes) =
     (map_of attributes ''thumbnail'' =
        Some (JString (getThumbnailFilename env (print_prop attributes ''id''))) \<and>
      map_of attributes ''url'' = None \<and>
      thumbnail_stored env seen (print_prop attributes ''id''))"
| "justified env seen e = True"



text \<open>Events of the script itself, which involve no outside service but the console and the file system.\<close>

definition quiet :: "event \<Rightarrow> bool" where
  "quiet e = (case e of Log m \<Rightarrow> True | FsRead path \<Rightarrow> True | _ \<Rightarrow> False)"

text \<open>The world \<open>seed\<close> leaves, the operations still in flight, and the events in order.\<close>

definition seed_world :: "env \<Rightarrow> schedule \<Rightarrow> world \<Rightarrow> world" where
  "seed_world env sch w = snd (snd (snd (seed env sch w)))"

definition seed_pending :: "env \<Rightarrow> schedule \<Rightarrow> world \<Rightarrow> task list" where
  "seed_pending env sch w = fst (snd (snd (seed env sch w)))"


text \<open>
  The line the \<open>catch\<close> of line 133 prints marks a batch whose wait ended with a
  rejection. \<open>in_turn\<close>: an event of a batch may follow an event of a later batch only
  when the earlier batch was rejected. \<open>batches_in_turn cur\<close> is what holds while the
  batch numbered \<open>cur\<close> is the one being dispatched and awaited.
\<close>

definition is_error_log :: "event \<Rightarrow> bool" where
  "is_error_log e = (case e of Log m \<Rightarrow> take 21 m = ''Error saving assets: '' | _ \<Rightarrow> False)"

definition rejected_batch :: "(nat \<times> event) list \<Rightarrow> nat \<Rightarrow> bool" where
  "rejected_batch tr b = (\<exists>x \<in> set tr. fst x = b \<and> is_error_log (snd x))"

definition in_turn :: "(nat \<times> event) list \<Rightarrow> nat \<times> event \<Rightarrow> bool" where
  "in_turn seen x = (\<forall>y \<in> set seen. fst y \<le> fst x \<or> rejected_batch seen (fst x))"

definition batches_in_turn :: "nat \<Rightarrow> task list \<Rightarrow> world \<Rightarrow> bool" where
  "batches_in_turn cur ts w =
     ((\<forall>x \<in> set (trace w). fst x \<le> cur) \<and>
      each_justified in_turn [] (trace w) \<and>
      (\<forall>t \<in> set ts. fst t \<le> cur \<and> (fst t < cur \<longrightarrow> rejected_batch (trace w) (fst t))) \<and>
      \<not> rejected_batch (trace w) 0)"

text \<open>
  The fixture files read in the asset phase, with the batch that read each, in order;
  \<open>reads_kept\<close> says that these are \<open>R\<close> and that no thumbnail check is pending outside the
  pack phase.
\<close>

definition fixture_reads :: "(nat \<times> event) list \<Rightarrow> (nat \<times> string) list" where
  "fixture_reads tr = concat (map (\<lambda>x. case snd x of FsRead path \<Rightarrow> if 0 < fst x then [(fst x, path)] else [] | _ \<Rightarrow> []) tr)"

definition reads_kept :: "(nat \<times> string) list \<Rightarrow> task list \<Rightarrow> world \<Rightarrow> bool" where
  "reads_kept R ts w =
     (fixture_reads (trace w) = R \<and> (\<forall>t \<in> set ts. (\<exists>p. snd t = CheckThumbnail p) \<longrightarrow> fst t = 0))"

text \<open>
  The upsert a pending operation leads to when nothing fails on the way, and what it means
  that the upserts \<open>G\<close> of batch \<open>b\<close> are each done or still to come.
\<close>

fun goal :: "env \<Rightarrow> pending \<Rightarrow> event option" where
  "goal env (CheckThumbnail p) =
     Some (UpsertPackRow (assetPackAttributes env p (getThumbnailFilename env (pack_id p))))"
| "goal env (SaveThumbnail p content) =
     Some (UpsertPackRow (assetPackAttributes env p (getThumbnailFilename env (pack_id p))))"
| "goal env (UpsertAssetPack attributes) = Some (UpsertPackRow attributes)"
| "goal env (UpsertAsset attributes target) = Some (UpsertAssetRow attributes target)"
| "goal env p = None"

definition owed :: "env \<Rightarrow> nat \<Rightarrow> event set \<Rightarrow> task list \<Rightarrow> world \<Rightarrow> bool" where
  "owed env b G ts w =
     (\<forall>e \<in> G. (b, e) \<in> set (trace w) \<or> (\<exists>t \<in> set ts. fst t = b \<and> goal env (snd t) = Some e))"

text \<open>The trace only grows; in the pack phase every event and every pending operation is of batch 0.\<close>

definition grown :: "(nat \<times> event) list \<Rightarrow> task list \<Rightarrow> world \<Rightarrow> bool" where
  "grown T ts w = (\<exists>rest. trace w = T @ rest)"

definition pack_phase :: "task list \<Rightarrow> world \<Rightarrow> bool" where
  "pack_phase ts w = ((\<forall>x \<in> set (trace w). fst x = 0) \<and> (\<forall>t \<in> set ts. fst t = 0))"

text \<open>
  The two kinds of event that pass a record to an \<open>upsert\<close>; that the upsert every pending
  operation leads to satisfies \<open>G\<close>; and that the record of an asset upsert is the one
  built (lines 93-104) from an asset of the fixture file of a pack of \<open>packs.json\<close>, with
  that pack's id and the conflict target of line 105.
\<close>

definition is_upsert :: "event \<Rightarrow> bool" where
  "is_upsert e = (case e of UpsertPackRow a \<Rightarrow> True | UpsertAssetRow a t \<Rightarrow> True | _ \<Rightarrow> False)"

definition tasks_aim :: "env \<Rightarrow> (event \<Rightarrow> bool) \<Rightarrow> task list \<Rightarrow> bool" where
  "tasks_aim env G ts = (\<forall>t \<in> set ts. \<forall>e. goal env (snd t) = Some e \<longrightarrow> G e)"

definition fixture_record :: "env \<Rightarrow> event \<Rightarrow> bool" where
  "fixture_record env e =
     (case e of
        UpsertAssetRow attributes target \<Rightarrow>
          (\<exists>p \<in> set (fixture_packs env). \<exists>a \<in> set (fixture_assets env p).
             attributes = assetAttributes (pack_id p) a \<and> target = [''id'', ''asset_pack_id''])
      | _ \<Rightarrow> True)"

text \<open>
  The keys of the rows of the two tables, on the conflict targets of lines 76 and 105. An
  upsert event is \<open>keyed\<close> when its record names no column twice and, for an asset, its
  target is that of line 105; it \<open>hits\<close> the key lists \<open>KP\<close> and \<open>KA\<close> when they hold the
  key of its record.
\<close>

definition pack_keys :: "world \<Rightarrow> jsval option list list" where
  "pack_keys w = map (row_key [''id'']) (asset_packs w)"

definition asset_keys :: "world \<Rightarrow> jsval option list list" where
  "asset_keys w = map (row_key [''id'', ''asset_pack_id'']) (assets w)"

definition keyed :: "event \<Rightarrow> bool" where
  "keyed e =
     (case e of
        UpsertPackRow attributes \<Rightarrow> distinct (map fst attributes)
      | UpsertAssetRow attributes target \<Rightarrow>
          distinct (map fst attributes) \<and> target = [''id'', ''asset_pack_id'']
      | _ \<Rightarrow> True)"

definition hits :: "jsval option list list \<Rightarrow> jsval option list list \<Rightarrow> event \<Rightarrow> bool" where
  "hits KP KA e =
     (case e of
        UpsertPackRow attributes \<Rightarrow> row_key [''id''] attributes \<in> set KP
      | UpsertAssetRow attributes target \<Rightarrow> row_key target attributes \<in> set KA
      | _ \<Rightarrow> True)"

text \<open>
  The key a pending operation is about to write under, if it is past its existence check;
  and the invariant of a run over a bucket that held \<open>store\<close> at its start: nothing is
  removed, and whatever was written or is about to be written goes under a key \<open>store\<close>
  did not hold.
\<close>

fun uploads :: "env \<Rightarrow> pending \<Rightarrow> string option" where
  "uploads env (SaveThumbnail p content) =
     Some (packFileKey env (pack_id p) (getThumbnailFilename env (pack_id p)))"
| "uploads env (DownloadContent cid) = Some (contentFileKey env cid)"
| "uploads env (SaveContent cid content) = Some (contentFileKey env cid)"
| "uploads env p = None"

definition fresh :: "env \<Rightarrow> bucket \<Rightarrow> task list \<Rightarrow> world \<Rightarrow> bool" where
  "fresh env store ts w =
     ((\<forall>k. checkFile k store \<longrightarrow> checkFile k (s3 w)) \<and>
      (\<forall>x \<in> set (trace w). \<forall>k content acl. snd x = S3Save k content acl \<longrightarrow> \<not> checkFile k store) \<and>
      (\<forall>t \<in> set ts. \<forall>k. uploads env (snd t) = Some k \<longrightarrow> \<not> checkFile k store))"

subsection \<open>Example fixtures\<close>

text \<open>
  A data directory with one pack of one asset, an HTTP host that answers every request
  with four bytes, and an empty bucket and database. The examples below run on them.
\<close>

definition example_pack :: DefaultAssetPack where
  "example_pack = \<lparr>pack_id = ''p1'', pack_title = ''Pack'', pack_url = ''http://x/t.png'', pack_thumbnail = ''t.png''\<rparr>"

definition example_asset :: DefaultAsset where
  "example_asset = \<lparr>asset_id = ''a1'', asset_name = ''Tree'', asset_thumbnail = ''http://x/thumbs/a1.png'',
     asset_url = ''http://x/m.glb'', asset_category = ''nature'', asset_tags = [''green''],
     asset_variations = [''v1''], asset_contents = [(''c1'', ''hash1'')]\<rparr>"

definition example_env :: env where
  "example_env = \<lparr>dirname = ''/seed'',
     readdirSync = (\<lambda>s. if s = ''/seed'' then [(''2020-05-05'', True), (''2020-01-01'', True), (''index.ts'', False)] else []),
     fs_readFileSync = (\<lambda>p. if p = ''/seed/2020-05-05/packs.json'' then Inr ''P''
        else if p = ''/seed/2020-05-05/p1.json'' then Inr ''A''
        else if p = ''/seed/2020-05-05/thumbnail.png'' then Inr ''PNG''
        else Inl (Error ''ENOENT'')),
     JSON_parse = (\<lambda>s. if s = ''P'' then Inr (PacksJSON True [example_pack])
        else if s = ''A'' then Inr (AssetsJSON True ''p1'' 1 ''Pack'' [example_asset])
        else Inl (Error ''SyntaxError'')),
     isProduction = False,
     getThumbnailFilename = (\<lambda>i. ''thumbnail.png''),
     packFileKey = (\<lambda>i f. ''asset_packs/'' @ i @ ''/'' @ f),
     contentFileKey = (\<lambda>c. ''contents/'' @ c),
     getDefaultEthAddress = ''0xabc'',
     now = 0,
     new_S3Content = None,
     db_connect = None\<rparr>"

definition reply_ok :: reply where
  "reply_ok = \<lparr>pick = 0, io_error = None, http = Response 200 [''ab'', ''cd''] None\<rparr>"

definition world_empty :: world where
  "world_empty = \<lparr>asset_packs = [], assets = [], s3 = [], trace = []\<rparr>"


text \<open>
  A second data set: two packs, the first with two assets and the second with one, none of
  them with content files; and a schedule in which the database rejects the seventh
  operation to complete, which is the upsert of the first asset of the first pack.
\<close>

definition example_pack2 :: DefaultAssetPack where
  "example_pack2 = \<lparr>pack_id = ''p2'', pack_title = ''Second'', pack_url = ''http://x/u.png'',
     pack_thumbnail = ''u.png''\<rparr>"

definition example_asset2 :: DefaultAsset where
  "example_asset2 = \<lparr>asset_id = ''a2'', asset_name = ''Rock'', asset_thumbnail = ''http://x/thumbs/a2.png'',
     asset_url = ''http://x/r.glb'', asset_category = ''nature'', asset_tags = [],
     asset_variations = [], asset_contents = []\<rparr>"

definition example_asset3 :: DefaultAsset where
  "example_asset3 = \<lparr>asset_id = ''a3'', asset_name = ''Bush'', asset_thumbnail = ''http://x/thumbs/a3.png'',
     asset_url = ''http://x/b.glb'', asset_category = ''nature'', asset_tags = [],
     asset_variations = [], asset_contents = []\<rparr>"

definition example_asset4 :: DefaultAsset where
  "example_asset4 = \<lparr>asset_id = ''b1'', asset_name = ''Lamp'', asset_thumbnail = ''http://x/thumbs/b1.png'',
     asset_url = ''http://x/l.glb'', asset_category = ''decor'', asset_tags = [],
     asset_variations = [], asset_contents = []\<rparr>"

definition example_env2 :: env where
  "example_env2 = example_env\<lparr>
     fs_readFileSync := (\<lambda>p. if p = ''/seed/2020-05-05/packs.json'' then Inr ''P2''
        else if p = ''/seed/2020-05-05/p1.json'' then Inr ''A1''
        else if p = ''/seed/2020-05-05/p2.json'' then Inr ''A2''
        else if p = ''/seed/2020-05-05/thumbnail.png'' then Inr ''PNG''
        else Inl (Error ''ENOENT'')),
     JSON_parse := (\<lambda>s. if s = ''P2'' then Inr (PacksJSON True [example_pack, example_pack2])
        else if s = ''A1'' then Inr (AssetsJSON True ''p1'' 1 ''Pack'' [example_asset2, example_asset3])
        else if s = ''A2'' then Inr (AssetsJSON True ''p2'' 1 ''Second'' [example_asset4])
        else Inl (Error ''SyntaxError''))\<rparr>"

definition schedule_db_error :: schedule where
  "schedule_db_error n =
     (if n = 6 then reply_ok\<lparr>io_error := Some (Error ''deadlock detected'')\<rparr> else reply_ok)"

text \<open>
  A third data set: one pack with two assets, the first with one content file. In the
  schedule the existence check of that file completes first and reports it absent, then
  its download is rejected by an error of the response; the two upserts are still pending.
\<close>

definition example_env3 :: env where
  "example_env3 = example_env\<lparr>
     JSON_parse := (\<lambda>s. if s = ''P'' then Inr (PacksJSON True [example_pack])
        else if s = ''A'' then Inr (AssetsJSON True ''p1'' 1 ''Pack'' [example_asset, example_asset2])
        else Inl (Error ''SyntaxError''))\<rparr>"

definition schedule_download_error :: schedule where
  "schedule_download_error n =
     (if n = 3 then reply_ok\<lparr>pick := 1\<rparr>
      else if n = 4 then reply_ok\<lparr>pick := 1, http := Response 200 [''ab''] (Some (Error ''aborted''))\<rparr>
      else reply_ok)"

section \<open>Properties\<close>

subsection \<open>Fixture reader\<close>



text \<open>
  C10. When the base directory has no subdirectory, \<open>getDataPath\<close> does not fail: \<open>pop\<close>
  on the empty sorted list gives \<open>undefined\<close>, the data path is the base directory joined
  with the literal \<open>undefined\<close>, and every fixture read goes to that directory.
\<close>

theorem getDataPath_undefined:
  assumes "getDirectories env (dirname env) = []"
  shows "getDataPath env = dirname env @ ''/undefined'' \<and>
         readFileSync env filename =
           ([Log (''Reading file '' @ dirname env @ ''/undefined/'' @ filename),
             FsRead (dirname env @ ''/undefined/'' @ filename)],
            fs_readFileSync env (dirname env @ ''/undefined/'' @ filename))"
  using assms by (simp add: getDataPath_def readFileSync_def pop_def Let_def)

theorem getDataPath_undefined_witness:
  "getDirectories (example_env\<lparr>readdirSync := (\<lambda>s. [(''index.ts'', False)])\<rparr>) ''/seed'' = [] \<and>
   getDataPath (example_env\<lparr>readdirSync := (\<lambda>s. [(''index.ts'', False)])\<rparr>) = ''/seed/undefined'' \<and>
   readFileSync (example_env\<lparr>readdirSync := (\<lambda>s. [(''index.ts'', False)])\<rparr>) ''packs.json'' =
     ([Log ''Reading file /seed/undefined/packs.json'', FsRead ''/seed/undefined/packs.json''],
      Inl (Error ''ENOENT''))"
  using getDataPath_undefined[of "example_env\<lparr>readdirSync := (\<lambda>s. [(''index.ts'', False)])\<rparr>" "''packs.json''"]
  by (simp add: example_env_def getDirectories_def)



subsection \<open>Remote content fetcher\<close>

text \<open>
  C7. \<open>downloadAsset\<close> requests \<open>https://assets.decentraland.org/<contentId>\<close> in production
  and \<open>https://assets.decentraland.zone/<contentId>\<close> otherwise, is fulfilled with the
  concatenation of the chunks when the response ends and rejected when the response emits
  an error. When the request itself fails the promise is not rejected: no listener takes
  the error, and the pending download ends the process.
\<close>

theorem downloadAsset_settles:
  "fst (downloadAsset env cid h) =
     [Log (''Downloading '' @ ''https://assets.decentraland.'' @ (if isProduction env then ''org'' else ''zone'') @ ''/'' @ cid),
      HttpGet (''https://assets.decentraland.'' @ (if isProduction env then ''org'' else ''zone'') @ ''/'' @ cid)] \<and>
   snd (downloadAsset env cid (Response status chunks None)) = Fulfilled (concat chunks) \<and>
   snd (downloadAsset env cid (Response status chunks (Some e))) = Rejected e \<and>
   snd (downloadAsset env cid (RequestError e)) = Unhandled e \<and>
   snd (downloadAsset env cid (RequestError e)) \<noteq> Rejected e \<and>
   advance env r (DownloadContent cid) w =
     (case http r of
        RequestError e \<Rightarrow> ([], Uncaught e, w)
      | Response status chunks None \<Rightarrow>
          ([Log (''Uploading file '' @ cid @ '' to S3'')], Continue (SaveContent cid (concat chunks)), w)
      | Response status chunks (Some e) \<Rightarrow> ([], Failed e, w))"
  by (simp add: downloadAsset_def downloadAsset_request_def getAssetsUrl_def Let_def
      split: http_outcome.splits option.splits)

text \<open>
  C9. A response that ends fulfils \<open>downloadAsset\<close> with its body whatever its status
  code: the body of a 404 or 500 answer is taken as the content and written to the bucket
  under the content identifier.
\<close>

theorem download_ignores_status:
  assumes "http r = Response status chunks None" and "io_error r' = None"
  shows "snd (downloadAsset env cid (http r)) = Fulfilled (concat chunks) \<and>
         advance env r (DownloadContent cid) w =
           ([Log (''Uploading file '' @ cid @ '' to S3'')], Continue (SaveContent cid (concat chunks)), w) \<and>
         (case advance env r' (SaveContent cid (concat chunks)) w of
            (evs, pr, w') \<Rightarrow>
              evs = [S3Save (contentFileKey env cid) (concat chunks) publicRead,
                     Log (''File '' @ cid @ '' uploaded successfully'')] \<and>
              pr = Finished \<and>
              map_of (s3 w') (contentFileKey env cid) = Some (concat chunks, publicRead))"
  using assms by (simp add: downloadAsset_def saveFile_def update_conv' Let_def)

theorem download_ignores_status_witness:
  "http (reply_ok\<lparr>http := Response 404 [''Not '', ''Found''] None\<rparr>) = Response 404 [''Not '', ''Found''] None \<and>
   io_error reply_ok = None \<and>
   snd (downloadAsset example_env ''hash1'' (Response 404 [''Not '', ''Found''] None)) = Fulfilled ''Not Found'' \<and>
   advance example_env (reply_ok\<lparr>http := Response 404 [''Not '', ''Found''] None\<rparr>) (DownloadContent ''hash1'') world_empty =
     ([Log ''Uploading file hash1 to S3''], Continue (SaveContent ''hash1'' ''Not Found''), world_empty) \<and>
   map_of (s3 (snd (snd (advance example_env reply_ok (SaveContent ''hash1'' ''Not Found'') world_empty)))) ''contents/hash1''
     = Some (''Not Found'', publicRead)"
  using download_ignores_status[of "reply_ok\<lparr>http := Response 404 [''Not '', ''Found''] None\<rparr>" 404
      "[''Not '', ''Found'']" reply_ok example_env "''hash1''" world_empty]
  by (simp add: reply_ok_def example_env_def split: prod.splits)

subsection \<open>Thumbnail names\<close>

lemma basename_last_component:
  "f \<noteq> [] \<Longrightarrow> CHR ''/'' \<notin> set f \<Longrightarrow> basename (d @ ''/'' @ f) = f"
proof -
  assume ne: "f \<noteq> []" and ns: "CHR ''/'' \<notin> set f"
  have 1: "dropWhile (\<lambda>c. c = CHR ''/'') (rev f @ CHR ''/'' # rev d) = rev f @ CHR ''/'' # rev d"
    using ne ns by (cases "rev f") auto
  have 2: "takeWhile (\<lambda>c. c \<noteq> CHR ''/'') (rev f @ CHR ''/'' # rev d) = rev f"
    using ns by (auto simp: takeWhile_append2 takeWhile_tail)
  show ?thesis by (simp add: basename_def 1 2)
qed

subsection \<open>The event loop\<close>

declare await_all.simps [simp del]

lemma await_all_done: "b \<notin> fst ` set ts \<Longrightarrow> await_all env sch b n ts w = (AllFulfilled, n, ts, w)"
  by (simp add: await_all.simps)

lemma await_all_step:
  "b \<in> fst ` set ts \<Longrightarrow> step env (sch n) ts w = ((b', pr), ts', w') \<Longrightarrow>
   await_all env sch b n ts w =
     (case pr of
        Uncaught e \<Rightarrow> (ProcessCrashed e, Suc n, ts', w')
      | Failed e \<Rightarrow> if b' = b then (FirstRejected e, Suc n, ts', w') else await_all env sch b (Suc n) ts' w'
      | Continue p' \<Rightarrow> await_all env sch b (Suc n) ts' w'
      | Finished \<Rightarrow> await_all env sch b (Suc n) ts' w')"
  by (simp add: await_all.simps[of env sch b n ts w])

lemma await_all_induct:
  assumes "\<And>n ts w.
     (\<And>b' pr ts' w'. b \<in> fst ` set ts \<Longrightarrow> step env (sch n) ts w = ((b', pr), ts', w') \<Longrightarrow>
        (\<forall>e. pr \<noteq> Uncaught e) \<Longrightarrow> (\<forall>e. pr = Failed e \<longrightarrow> b' \<noteq> b) \<Longrightarrow> P (Suc n) ts' w')
     \<Longrightarrow> P n ts w"
  shows "P n ts w"
proof -
  have "env' = env \<longrightarrow> sch' = sch \<longrightarrow> b0 = b \<longrightarrow> P n ts w" for env' sch' b0
  proof (induction env' sch' b0 n ts w rule: await_all.induct)
    case (1 env' sch' b0 n ts w)
    show ?case
    proof (intro impI)
      assume e: "env' = env" "sch' = sch" "b0 = b"
      show "P n ts w"
      proof (rule assms)
        fix b' pr ts' w'
        assume m: "b \<in> fst ` set ts" and s: "step env (sch n) ts w = ((b', pr), ts', w')"
          and u: "\<forall>e. pr \<noteq> Uncaught e" and f: "\<forall>e. pr = Failed e \<longrightarrow> b' \<noteq> b"
        have m': "\<not> b0 \<notin> fst ` set ts" using m e by simp
        have s': "((b', pr), ts', w') = step env' (sch' n) ts w" using s e by simp
        show "P (Suc n) ts' w'"
        proof (cases pr)
          case (Continue p')
          then show ?thesis using "1.IH"(1)[OF m' s' refl refl] e by simp
        next
          case Finished
          then show ?thesis using "1.IH"(2)[OF m' s' refl refl] e by simp
        next
          case (Failed x)
          then show ?thesis using "1.IH"(3)[OF m' s' refl refl] e f by simp
        next
          case (Uncaught x)
          then show ?thesis using u by simp
        qed
      qed
    qed
  qed
  then show ?thesis by simp
qed

lemma await_all_invariant:
  assumes st: "\<And>r ts w b' pr ts' w'. ts \<noteq> [] \<Longrightarrow> I ts w \<Longrightarrow> step env r ts w = ((b', pr), ts', w') \<Longrightarrow> I ts' w'"
    and i: "I ts w"
    and a: "await_all env sch b n ts w = (res, n', ts', w')"
  shows "I ts' w'"
  using i a
proof (induction n ts w rule: await_all_induct[where env = env and sch = sch and b = b])
  case (1 n ts w)
  show ?case
  proof (cases "b \<in> fst ` set ts")
    case False
    then show ?thesis using "1.prems" by (simp add: await_all_done)
  next
    case True
    then have ne: "ts \<noteq> []" by auto
    obtain b1 pr ts1 w1 where s: "step env (sch n) ts w = ((b1, pr), ts1, w1)"
      by (metis prod.exhaust)
    have i1: "I ts1 w1" using st[OF ne "1.prems"(1) s] .
    show ?thesis
      using "1.IH"[OF True s _ _ i1] "1.prems"(2) i1
      by (cases pr) (auto simp: await_all_step[where sch = sch and n = n, OF True s] split: if_splits)
  qed
qed

lemma await_all_fulfilled:
  "await_all env sch b n ts w = (AllFulfilled, n', ts', w') \<Longrightarrow> b \<notin> fst ` set ts'"
proof (induction n ts w rule: await_all_induct[where env = env and sch = sch and b = b])
  case (1 n ts w)
  show ?case
  proof (cases "b \<in> fst ` set ts")
    case False
    then show ?thesis using "1.prems" by (simp add: await_all_done)
  next
    case True
    obtain b1 pr ts1 w1 where s: "step env (sch n) ts w = ((b1, pr), ts1, w1)"
      by (metis prod.exhaust)
    show ?thesis
      using "1.IH"[OF True s] "1.prems"
      by (cases pr) (auto simp: await_all_step[where sch = sch and n = n, OF True s] split: if_splits)
  qed
qed


lemma emit_simps [simp]:
  "trace (emit b evs w) = trace w @ map (Pair b) evs"
  "asset_packs (emit b evs w) = asset_packs w"
  "assets (emit b evs w) = assets w"
  "s3 (emit b evs w) = s3 w"
  by (simp_all add: emit_def)

lemma emit_Nil [simp]: "emit b [] w = w"
  by (simp add: emit_def)

lemma emit_append: "emit b (xs @ ys) w = emit b ys (emit b xs w)"
  by (simp add: emit_def)

lemma upsertAssets_read_failed:
  "readJSON env (pack_id p @ ''.json'') = (evs, Inl e) \<Longrightarrow>
   upsertAssets env sch b (p # ps) (n, ts, w) = (Thrown e, n, ts, emit b evs w)"
  by simp

lemma upsertAssets_not_assets:
  "readJSON env (pack_id p @ ''.json'') = (evs, Inr doc) \<Longrightarrow>
   doc = OtherJSON \<or> doc = PacksJSON ok packs \<Longrightarrow>
   upsertAssets env sch b (p # ps) (n, ts, w) = (Thrown (Error ''TypeError''), n, ts, emit b evs w)"
  by auto

lemma upsertAssets_batch:
  "readJSON env (pack_id p @ ''.json'') = (evs, Inr (AssetsJSON ok i v t as)) \<Longrightarrow>
   dispatch_assets env (pack_id p) as = (logged, assetPromises) \<Longrightarrow>
   await_all env sch b n (ts @ map (Pair b) assetPromises) (emit b (evs @ logged) w) = (a, n1, ts1, w1) \<Longrightarrow>
   upsertAssets env sch b (p # ps) (n, ts, w) =
     (case a of
        AllFulfilled \<Rightarrow> upsertAssets env sch (Suc b) ps (n1, ts1, w1)
      | FirstRejected e \<Rightarrow>
          upsertAssets env sch (Suc b) ps (n1, ts1, emit b [Log (''Error saving assets: '' @ message e)] w1)
      | ProcessCrashed e \<Rightarrow> (Died e, n1, ts1, w1))"
  by (simp split: awaited.splits)

declare upsertAssets.simps(2) [simp del]

lemma seed_read_failed:
  "readJSON env ''packs.json'' = (evs, Inl e) \<Longrightarrow> seed env sch w = (Thrown e, 0, [], emit 0 evs w)"
  by (simp add: seed_def)

lemma seed_other:
  "readJSON env ''packs.json'' = (evs, Inr OtherJSON) \<Longrightarrow>
   seed env sch w = (Thrown (Error ''TypeError''), 0, [], emit 0 evs w)"
  by (simp add: seed_def)

lemma seed_assets_shape:
  "readJSON env ''packs.json'' = (evs, Inr (AssetsJSON ok i v t as)) \<Longrightarrow>
   seed env sch w = (Thrown (Error ''TypeError''), 0, [], emit 0 (evs @ [Log ''==== Asset packs ====''] ) w)"
  by (simp add: seed_def)

lemma seed_packs:
  "readJSON env ''packs.json'' = (evs, Inr (PacksJSON ok assetPacks)) \<Longrightarrow>
   upsertAssetPacks env sch assetPacks (emit 0 (evs @ [Log ''==== Asset packs ====''] ) w) = (a, n, ts, w') \<Longrightarrow>
   seed env sch w =
     (case a of
        AllFulfilled \<Rightarrow> upsertAssets env sch 1 assetPacks (n, ts, emit 0 [Log ''==== Assets ====''] w')
      | FirstRejected e \<Rightarrow> (Thrown e, n, ts, w')
      | ProcessCrashed e \<Rightarrow> (Died e, n, ts, w'))"
  by (simp add: seed_def split: awaited.splits)

lemma upsertAssets_invariant:
  assumes st: "\<And>b r ts w b' pr ts' w'. ts \<noteq> [] \<Longrightarrow> I b ts w \<Longrightarrow> step env r ts w = ((b', pr), ts', w') \<Longrightarrow> I b ts' w'"
    and rd: "\<And>b ts w f. I b ts w \<Longrightarrow> I b ts (emit b (fst (readJSON env f)) w)"
    and dp: "\<And>b ts w p. p \<in> P \<Longrightarrow> I b ts w \<Longrightarrow>
          I b (ts @ map (Pair b) (snd (dispatch_assets env (pack_id p) (fixture_assets env p))))
            (emit b (fst (dispatch_assets env (pack_id p) (fixture_assets env p))) w)"
    and nx: "\<And>b ts w. I b ts w \<Longrightarrow> b \<notin> fst ` set ts \<Longrightarrow> I (Suc b) ts w"
    and er: "\<And>b ts w e. 0 < b \<Longrightarrow> I b ts w \<Longrightarrow>
          I (Suc b) ts (emit b [Log (''Error saving assets: '' @ message e)] w)"
    and i: "I b ts w"
    and u: "upsertAssets env sch b ps (n, ts, w) = (res, n', ts', w')"
    and pos: "0 < b"
    and sub: "set ps \<subseteq> P"
  shows "\<exists>b'. I b' ts' w' \<and> (res = Returned \<longrightarrow> b' = b + length ps)"
  using i u pos sub
proof (induction ps arbitrary: b n ts w)
  case Nil
  then show ?case by auto
next
  case (Cons p ps)
  obtain evs j where r: "readJSON env (pack_id p @ ''.json'') = (evs, j)" by (metis prod.exhaust)
  have i1: "I b ts (emit b evs w)" using rd[OF Cons.prems(1), of "pack_id p @ ''.json''"] r by simp
  show ?case
  proof (cases j)
    case (Inl e)
    then show ?thesis using Cons.prems(2) i1 upsertAssets_read_failed[of env p evs e sch b ps n ts w] r
      by auto
  next
    case (Inr doc)
    show ?thesis
    proof (cases doc)
      case (AssetsJSON ok i v t as)
      obtain logged assetPromises where d: "dispatch_assets env (pack_id p) as = (logged, assetPromises)"
        by (metis prod.exhaust)
      have fa: "fixture_assets env p = as" using r Inr AssetsJSON by (simp add: fixture_assets_def)
      have pP: "p \<in> P" using Cons.prems(4) by simp
      have i2: "I b (ts @ map (Pair b) assetPromises) (emit b (evs @ logged) w)"
        using dp[OF pP i1] d fa by (simp add: emit_append)
      obtain a n1 ts1 w1 where aw: "await_all env sch b n (ts @ map (Pair b) assetPromises) (emit b (evs @ logged) w) = (a, n1, ts1, w1)"
        by (metis prod.exhaust)
      have i3: "I b ts1 w1"
        by (rule await_all_invariant[where I = "I b", OF st i2 aw])
      have r': "readJSON env (pack_id p @ ''.json'') = (evs, Inr (AssetsJSON ok i v t as))"
        using r Inr AssetsJSON by simp
      note eq = upsertAssets_batch[OF r' d aw, of ps]
      show ?thesis
      proof (cases a)
        case AllFulfilled
        have "b \<notin> fst ` set ts1" using aw AllFulfilled by (auto dest: await_all_fulfilled)
        then have "I (Suc b) ts1 w1" using nx i3 by blast
        moreover have "upsertAssets env sch (Suc b) ps (n1, ts1, w1) = (res, n', ts', w')"
          using Cons.prems(2) eq AllFulfilled by simp
        ultimately have "\<exists>b'. I b' ts' w' \<and> (res = Returned \<longrightarrow> b' = Suc b + length ps)"
          by (rule Cons.IH) (use Cons.prems in auto)
        then show ?thesis by simp
      next
        case (FirstRejected e)
        have "I (Suc b) ts1 (emit b [Log (''Error saving assets: '' @ message e)] w1)"
          using er i3 Cons.prems(3) by blast
        moreover have "upsertAssets env sch (Suc b) ps (n1, ts1, emit b [Log (''Error saving assets: '' @ message e)] w1) = (res, n', ts', w')"
          using Cons.prems(2) eq FirstRejected by simp
        ultimately have "\<exists>b'. I b' ts' w' \<and> (res = Returned \<longrightarrow> b' = Suc b + length ps)"
          by (rule Cons.IH) (use Cons.prems in auto)
        then show ?thesis by simp
      next
        case (ProcessCrashed e)
        then show ?thesis using Cons.prems(2) eq i3 by auto
      qed
    next
      case (PacksJSON ok packs)
      then show ?thesis
        using Cons.prems(2) i1 upsertAssets_not_assets[of env p evs doc ok packs sch b ps n ts w] r Inr
        by auto
    next
      case OtherJSON
      then show ?thesis
        using Cons.prems(2) i1 upsertAssets_not_assets[of env p evs doc _ _ sch b ps n ts w] r Inr
        by auto
    qed
  qed
qed

lemma seed_invariant:
  assumes st: "\<And>b r ts w b' pr ts' w'. ts \<noteq> [] \<Longrightarrow> I b ts w \<Longrightarrow> step env r ts w = ((b', pr), ts', w') \<Longrightarrow> I b ts' w'"
    and rd: "\<And>b ts w f. I b ts w \<Longrightarrow> I b ts (emit b (fst (readJSON env f)) w)"
    and dp: "\<And>b ts w p. p \<in> set (fixture_packs env) \<Longrightarrow> I b ts w \<Longrightarrow>
          I b (ts @ map (Pair b) (snd (dispatch_assets env (pack_id p) (fixture_assets env p))))
            (emit b (fst (dispatch_assets env (pack_id p) (fixture_assets env p))) w)"
    and nx: "\<And>b ts w. I b ts w \<Longrightarrow> b \<notin> fst ` set ts \<Longrightarrow> I (Suc b) ts w"
    and er: "\<And>b ts w e. 0 < b \<Longrightarrow> I b ts w \<Longrightarrow>
          I (Suc b) ts (emit b [Log (''Error saving assets: '' @ message e)] w)"
    and pk: "\<And>w. I 0 [] w \<Longrightarrow> I 0 (map (\<lambda>p. (0, CheckThumbnail p)) (fixture_packs env)) w"
    and lg: "\<And>ts w m. I 0 ts w \<Longrightarrow> m = ''==== Asset packs ===='' \<or> m = ''==== Assets ====''
               \<Longrightarrow> I 0 ts (emit 0 [Log m] w)"
    and i: "I 0 [] w"
    and s: "seed env sch w = (res, n', ts', w')"
  shows "\<exists>b'. I b' ts' w' \<and> (res = Returned \<longrightarrow> b' = Suc (length (fixture_packs env)))"
proof -
  obtain evs j where r: "readJSON env ''packs.json'' = (evs, j)" by (metis prod.exhaust)
  have i1: "I 0 [] (emit 0 evs w)" using rd[OF i, of "''packs.json''"] r by simp
  have i2: "I 0 [] (emit 0 (evs @ [Log ''==== Asset packs ====''] ) w)"
    using lg[OF i1, of "''==== Asset packs ====''"] by (simp add: emit_append)
  show ?thesis
  proof (cases j)
    case (Inl e)
    then show ?thesis using s i1 seed_read_failed[of env evs e sch w] r by auto
  next
    case (Inr doc)
    show ?thesis
    proof (cases doc)
      case (PacksJSON ok assetPacks)
      obtain a n1 ts1 w1 where aw: "upsertAssetPacks env sch assetPacks (emit 0 (evs @ [Log ''==== Asset packs ====''] ) w) = (a, n1, ts1, w1)"
        by (metis prod.exhaust)
      have aw': "await_all env sch 0 0 (map (\<lambda>p. (0, CheckThumbnail p)) assetPacks) (emit 0 (evs @ [Log ''==== Asset packs ====''] ) w) = (a, n1, ts1, w1)"
        using aw by (simp add: upsertAssetPacks_def)
      have r': "readJSON env ''packs.json'' = (evs, Inr (PacksJSON ok assetPacks))"
        using r Inr PacksJSON by simp
      have fp: "fixture_packs env = assetPacks" using r' by (simp add: fixture_packs_def)
      have i3: "I 0 ts1 w1"
        by (rule await_all_invariant[where I = "I 0", OF st pk[OF i2, unfolded fp] aw'])
      note eq = seed_packs[OF r' aw]
      show ?thesis
      proof (cases a)
        case AllFulfilled
        have n0: "0 \<notin> fst ` set ts1"
          using aw' AllFulfilled by (auto dest: await_all_fulfilled)
        have "I 0 ts1 (emit 0 [Log ''==== Assets ====''] w1)" using lg[OF i3] by simp
        then have j1: "I (Suc 0) ts1 (emit 0 [Log ''==== Assets ====''] w1)" using nx n0 by simp
        have j2: "upsertAssets env sch (Suc 0) assetPacks (n1, ts1, emit 0 [Log ''==== Assets ====''] w1) = (res, n', ts', w')"
          using s eq AllFulfilled by simp
        have "\<exists>b'. I b' ts' w' \<and> (res = Returned \<longrightarrow> b' = Suc 0 + length assetPacks)"
          by (rule upsertAssets_invariant[where I = I and env = env and P = "set (fixture_packs env)",
                OF st rd dp nx er j1 j2]) (simp_all add: fp)
        then show ?thesis using fp by simp
      next
        case (FirstRejected e)
        then show ?thesis using s eq i3 by auto
      next
        case (ProcessCrashed e)
        then show ?thesis using s eq i3 by auto
      qed
    next
      case (AssetsJSON ok i v t as)
      then show ?thesis using s i2 seed_assets_shape[of env evs ok i v t as sch w] r Inr by auto
    next
      case OtherJSON
      then show ?thesis using s i1 seed_other[of env evs sch w] r Inr by auto
    qed
  qed
qed


lemma each_justified_append:
  "each_justified J seen (xs @ ys) = (each_justified J seen xs \<and> each_justified J (seen @ xs) ys)"
  by (induction xs arbitrary: seen) auto

lemma each_justified_nth:
  "each_justified J seen xs \<Longrightarrow> i < length xs \<Longrightarrow> J (seen @ take i xs) (xs ! i)"
proof (induction xs arbitrary: seen i)
  case Nil
  then show ?case by simp
next
  case (Cons x xs)
  show ?case
  proof (cases i)
    case 0
    then show ?thesis using Cons.prems by simp
  next
    case (Suc j)
    then show ?thesis using Cons.IH[of "seen @ [x]" j] Cons.prems by simp
  qed
qed

lemma thumbnail_stored_mono:
  "set seen \<subseteq> set seen' \<Longrightarrow> thumbnail_stored env seen pid \<Longrightarrow> thumbnail_stored env seen' pid"
  by (auto simp: thumbnail_stored_def split: sum.splits)

lemma justified_mono:
  "set seen \<subseteq> set seen' \<Longrightarrow> justified env seen e \<Longrightarrow> justified env seen' e"
  by (cases e) (auto dest: thumbnail_stored_mono)



lemma advance_trace: "advance env r p w = (evs, pr, w') \<Longrightarrow> trace w' = trace w"
  by (cases p) (auto simp: Let_def split: option.splits if_splits prod.splits sum.splits settled.splits)



lemma step_shape:
  "step env r ts w = ((b, pr), ts', w') \<Longrightarrow>
   \<exists>evs w1. advance env r (snd (ts ! (pick r mod length ts))) w = (evs, pr, w1) \<and>
     b = fst (ts ! (pick r mod length ts)) \<and>
     ts' = (case pr of Continue p' \<Rightarrow> ts[pick r mod length ts := (b, p')]
            | _ \<Rightarrow> remove_nth (pick r mod length ts) ts) \<and>
     w' = emit b evs w1"
  by (auto simp: step_def Let_def split: prod.splits)

lemma set_remove_nth: "set (remove_nth i xs) \<subseteq> set xs"
  using set_take_subset[of i xs] set_drop_subset[of "Suc i" xs] by (auto simp: remove_nth_def)

lemma step_tasks:
  assumes "step env r ts w = ((b, pr), ts', w')" and "t \<in> set ts'"
  shows "t \<in> set ts \<or> (\<exists>p'. pr = Continue p' \<and> t = (b, p'))"
proof -
  obtain evs w1 where ts': "ts' = (case pr of Continue p' \<Rightarrow> ts[pick r mod length ts := (b, p')]
                               | _ \<Rightarrow> remove_nth (pick r mod length ts) ts)"
    using step_shape[OF assms(1)] by blast
  show ?thesis
  proof (cases pr)
    case (Continue p')
    then show ?thesis
      using assms(2) ts' set_update_subset_insert[of ts "pick r mod length ts" "(b, p')"] by auto
  next
    case Finished
    then show ?thesis using assms(2) ts' set_remove_nth[of "pick r mod length ts" ts] by auto
  next
    case (Failed e)
    then show ?thesis using assms(2) ts' set_remove_nth[of "pick r mod length ts" ts] by auto
  next
    case (Uncaught e)
    then show ?thesis using assms(2) ts' set_remove_nth[of "pick r mod length ts" ts] by auto
  qed
qed

lemma step_picked:
  assumes "ts \<noteq> []" and "step env r ts w = ((b, pr), ts', w')"
  obtains p evs w1 where "(b, p) \<in> set ts" and "advance env r p w = (evs, pr, w1)"
    and "w' = emit b evs w1" and "trace w1 = trace w"
proof -
  let ?i = "pick r mod length ts"
  have i: "?i < length ts" using assms(1) by simp
  obtain evs w1 where a: "advance env r (snd (ts ! ?i)) w = (evs, pr, w1)"
      and b: "b = fst (ts ! ?i)" and w': "w' = emit b evs w1"
    using step_shape[OF assms(2)] by blast
  have "(b, snd (ts ! ?i)) \<in> set ts" using i b by (metis nth_mem prod.collapse)
  then show ?thesis using that a w' advance_trace[OF a] by blast
qed




lemma readJSON_quiet: "\<forall>e \<in> set (fst (readJSON env f)). quiet e"
  by (auto simp: readJSON_def readFileSync_def quiet_def Let_def split: sum.splits)

lemma dispatch_assets_quiet: "\<forall>e \<in> set (fst (dispatch_assets env pid as)). quiet e"
  by (auto simp: dispatch_assets_def dispatch_asset_def quiet_def Let_def split: option.splits)

lemma dispatch_assets_kinds:
  "p \<in> set (snd (dispatch_assets env pid as)) \<Longrightarrow>
   (\<exists>a \<in> set as. p = UpsertAsset (assetAttributes pid a) [''id'', ''asset_pack_id'']) \<or>
   (\<exists>a \<in> set as. \<exists>cid \<in> snd ` set (asset_contents a). p = CheckContent cid)"
  by (auto simp: dispatch_assets_def dispatch_asset_def Let_def split: option.splits)


subsection \<open>Existence checks come first\<close>

lemma seed_collapse:
  "seed env sch w = (fst (seed env sch w), fst (snd (seed env sch w)), seed_pending env sch w, seed_world env sch w)"
  by (simp add: seed_world_def seed_pending_def)









subsection \<open>One batch at a time\<close>

lemma rejected_batch_mono: "set tr \<subseteq> set tr' \<Longrightarrow> rejected_batch tr b \<Longrightarrow> rejected_batch tr' b"
  by (auto simp: rejected_batch_def)

lemma rejected_batch_append:
  "rejected_batch (tr @ map (Pair b') evs) b = (rejected_batch tr b \<or> (b' = b \<and> (\<exists>e \<in> set evs. is_error_log e)))"
  by (force simp: rejected_batch_def)

lemma advance_no_error_log:
  "advance env r p w = (evs, pr, w') \<Longrightarrow> e \<in> set evs \<Longrightarrow> \<not> is_error_log e"
  by (cases p) (auto simp: is_error_log_def Let_def upsertAssetPack_then_def readFileSync_def
      downloadAsset_request_def split: option.splits if_splits prod.splits sum.splits settled.splits)

lemma readJSON_no_error_log: "e \<in> set (fst (readJSON env f)) \<Longrightarrow> \<not> is_error_log e"
  by (auto simp: readJSON_def readFileSync_def is_error_log_def Let_def split: sum.splits)

lemma dispatch_no_error_log: "e \<in> set (fst (dispatch_assets env pid as)) \<Longrightarrow> \<not> is_error_log e"
  by (auto simp: dispatch_assets_def dispatch_asset_def is_error_log_def Let_def split: option.splits)

lemma in_turn_emit:
  assumes "\<forall>x \<in> set tr. fst x \<le> cur" and "b \<le> cur" and "b < cur \<longrightarrow> rejected_batch tr b"
  shows "each_justified in_turn tr (map (Pair b) evs)"
  using assms
proof (induction evs arbitrary: tr)
  case Nil
  then show ?case by simp
next
  case (Cons e evs)
  have 1: "in_turn tr (b, e)"
    using Cons.prems by (auto simp: in_turn_def)
  have 2: "each_justified in_turn (tr @ [(b, e)]) (map (Pair b) evs)"
    using Cons.prems by (intro Cons.IH) (auto simp: rejected_batch_def)
  show ?case using 1 2 by simp
qed

lemma emit_in_turn:
  assumes "batches_in_turn cur ts w" and "b \<le> cur" and "b < cur \<longrightarrow> rejected_batch (trace w) b"
    and "b = 0 \<longrightarrow> (\<forall>e \<in> set evs. \<not> is_error_log e)"
  shows "batches_in_turn cur ts (emit b evs w)"
proof -
  have 1: "each_justified in_turn (trace w) (map (Pair b) evs)"
    using assms(1-3) by (intro in_turn_emit) (auto simp: batches_in_turn_def)
  show ?thesis
    using assms 1
    by (auto simp: batches_in_turn_def each_justified_append rejected_batch_append)
qed

lemma step_in_turn:
  assumes ne: "ts \<noteq> []" and inv: "batches_in_turn cur ts w" and s: "step env r ts w = ((b, pr), ts', w')"
  shows "batches_in_turn cur ts' w'"
proof -
  obtain p evs w1 where m: "(b, p) \<in> set ts" and a: "advance env r p w = (evs, pr, w1)"
    and w': "w' = emit b evs w1" and tr: "trace w1 = trace w"
    using step_picked[OF ne s] by blast
  have b: "b \<le> cur" "b < cur \<longrightarrow> rejected_batch (trace w) b"
    using inv m by (auto simp: batches_in_turn_def)
  have i1: "batches_in_turn cur ts w1" using inv tr by (simp add: batches_in_turn_def)
  have i2: "batches_in_turn cur ts w'"
    unfolding w' using i1 b advance_no_error_log[OF a] by (intro emit_in_turn) (auto simp: tr)
  have "fst t \<le> cur \<and> (fst t < cur \<longrightarrow> rejected_batch (trace w') (fst t))" if "t \<in> set ts'" for t
  proof -
    from step_tasks[OF s that] show ?thesis
    proof
      assume "t \<in> set ts"
      then show ?thesis using i2 by (auto simp: batches_in_turn_def)
    next
      assume "\<exists>p'. pr = Continue p' \<and> t = (b, p')"
      then show ?thesis using i2 m by (auto simp: batches_in_turn_def)
    qed
  qed
  then show ?thesis using i2 by (simp add: batches_in_turn_def)
qed

lemma seed_in_turn:
  assumes "trace w = []" and "seed env sch w = (res, n, ts, w')"
  shows "\<exists>cur. batches_in_turn cur ts w' \<and> (res = Returned \<longrightarrow> cur = Suc (length (fixture_packs env)))"
proof (rule seed_invariant[where I = batches_in_turn and env = env, OF _ _ _ _ _ _ _ _ assms(2)])
  show "\<And>b r ts w b' pr ts' w'. ts \<noteq> [] \<Longrightarrow> batches_in_turn b ts w \<Longrightarrow>
      step env r ts w = ((b', pr), ts', w') \<Longrightarrow> batches_in_turn b ts' w'"
    by (rule step_in_turn)
  show "\<And>b ts w f. batches_in_turn b ts w \<Longrightarrow> batches_in_turn b ts (emit b (fst (readJSON env f)) w)"
    by (rule emit_in_turn) (auto dest: readJSON_no_error_log)
  show "\<And>b ts w p. p \<in> set (fixture_packs env) \<Longrightarrow> batches_in_turn b ts w \<Longrightarrow>
      batches_in_turn b (ts @ map (Pair b) (snd (dispatch_assets env (pack_id p) (fixture_assets env p))))
        (emit b (fst (dispatch_assets env (pack_id p) (fixture_assets env p))) w)"
  proof -
    fix b ts w and p :: DefaultAssetPack
    define pid where "pid = pack_id p"
    define as where "as = fixture_assets env p"
    assume "batches_in_turn b ts w"
    then have "batches_in_turn b ts (emit b (fst (dispatch_assets env pid as)) w)"
      by (rule emit_in_turn) (auto dest: dispatch_no_error_log)
    then show "batches_in_turn b (ts @ map (Pair b) (snd (dispatch_assets env (pack_id p) (fixture_assets env p))))
        (emit b (fst (dispatch_assets env (pack_id p) (fixture_assets env p))) w)"
      unfolding pid_def as_def by (auto simp: batches_in_turn_def)
  qed
  show "\<And>b ts w. batches_in_turn b ts w \<Longrightarrow> b \<notin> fst ` set ts \<Longrightarrow> batches_in_turn (Suc b) ts w"
    by (auto simp: batches_in_turn_def le_Suc_eq) (metis fst_conv image_eqI le_neq_implies_less prod.collapse)+
  show "\<And>b ts w e. 0 < b \<Longrightarrow> batches_in_turn b ts w \<Longrightarrow>
      batches_in_turn (Suc b) ts (emit b [Log (''Error saving assets: '' @ message e)] w)"
  proof -
    fix b ts w e
    assume b: "0 < (b::nat)" and i: "batches_in_turn b ts w"
    have "batches_in_turn b ts (emit b [Log (''Error saving assets: '' @ message e)] w)"
      using i b by (intro emit_in_turn) auto
    then show "batches_in_turn (Suc b) ts (emit b [Log (''Error saving assets: '' @ message e)] w)"
      by (auto simp: batches_in_turn_def rejected_batch_def is_error_log_def le_Suc_eq)
  qed
  show "\<And>w. batches_in_turn 0 [] w \<Longrightarrow>
      batches_in_turn 0 (map (\<lambda>p. (0, CheckThumbnail p)) (fixture_packs env)) w"
    by (auto simp: batches_in_turn_def)
  show "\<And>ts w m. batches_in_turn 0 ts w \<Longrightarrow> m = ''==== Asset packs ===='' \<or> m = ''==== Assets ===='' \<Longrightarrow>
      batches_in_turn 0 ts (emit 0 [Log m] w)"
    by (rule emit_in_turn) (auto simp: is_error_log_def)
  show "batches_in_turn 0 [] w" using assms(1) by (simp add: batches_in_turn_def rejected_batch_def)
qed

lemma fixture_reads_append [simp]: "fixture_reads (xs @ ys) = fixture_reads xs @ fixture_reads ys"
  by (simp add: fixture_reads_def)

lemma fixture_reads_Nil [simp]: "fixture_reads [] = []"
  by (simp add: fixture_reads_def)

lemma fixture_reads_Cons [simp]:
  "fixture_reads ((b, e) # xs) =
     (case e of FsRead path \<Rightarrow> if 0 < b then [(b, path)] else [] | _ \<Rightarrow> []) @ fixture_reads xs"
  by (simp add: fixture_reads_def split: event.splits)

lemma fixture_reads_none:
  "b = 0 \<or> (\<forall>path. FsRead path \<notin> set evs) \<Longrightarrow> fixture_reads (map (Pair b) evs) = []"
  by (induction evs) (auto simp: fixture_reads_def split: event.splits)

lemma advance_reads:
  "advance env r p w = (evs, pr, w') \<Longrightarrow>
   (pr \<noteq> Continue (CheckThumbnail q)) \<and> ((\<forall>q. p \<noteq> CheckThumbnail q) \<longrightarrow> FsRead path \<notin> set evs)"
  by (cases p) (auto simp: Let_def upsertAssetPack_then_def downloadAsset_request_def
      split: option.splits if_splits prod.splits sum.splits settled.splits)

lemma step_reads_kept:
  assumes ne: "ts \<noteq> []" and inv: "reads_kept R ts w" and s: "step env r ts w = ((b, pr), ts', w')"
  shows "reads_kept R ts' w'"
proof -
  obtain p evs w1 where m: "(b, p) \<in> set ts" and a: "advance env r p w = (evs, pr, w1)"
    and w': "w' = emit b evs w1" and tr: "trace w1 = trace w"
    using step_picked[OF ne s] by blast
  have "b = 0 \<or> (\<forall>path. FsRead path \<notin> set evs)"
    using inv m advance_reads[OF a] by (fastforce simp: reads_kept_def)
  then have 1: "fixture_reads (trace w') = R"
    using inv by (simp add: w' tr reads_kept_def fixture_reads_none)
  have 2: "fst t = 0" if "t \<in> set ts'" "snd t = CheckThumbnail q" for t q
    using step_tasks[OF s that(1)] that(2) inv advance_reads[OF a, of q] by (auto simp: reads_kept_def)
  show ?thesis using 1 2 by (auto simp: reads_kept_def)
qed

lemma readJSON_events:
  "fst (readJSON env f) = [Log (''Reading file '' @ getDataPath env @ ''/'' @ f), FsRead (getDataPath env @ ''/'' @ f)]"
  by (simp add: readJSON_def readFileSync_def Let_def split: sum.splits)

lemma dispatch_assets_no_read: "FsRead path \<notin> set (fst (dispatch_assets env pid as))"
  by (auto simp: dispatch_assets_def dispatch_asset_def Let_def split: option.splits)

lemma dispatch_assets_no_thumbnail: "CheckThumbnail p \<notin> set (snd (dispatch_assets env pid as))"
  by (auto simp: dispatch_assets_def dispatch_asset_def Let_def split: option.splits)

lemma map_upt_shift: "map (\<lambda>i. f (Suc i)) [0..<k] = map f [Suc 0..<Suc k]"
  by (induction k) auto

lemma upsertAssets_reads:
  assumes "reads_kept R ts w" and "0 < b" and "upsertAssets env sch b ps (n, ts, w) = (res, n', ts', w')"
  shows "\<exists>k \<le> length ps.
           fixture_reads (trace w') =
             R @ map (\<lambda>i. (b + i, getDataPath env @ ''/'' @ pack_id (ps ! i) @ ''.json'')) [0..<k] \<and>
           (res = Returned \<longrightarrow> k = length ps)"
  using assms
proof (induction ps arbitrary: b n ts w R)
  case Nil
  then show ?case by (auto simp: reads_kept_def)
next
  case (Cons p ps)
  let ?path = "getDataPath env @ ''/'' @ pack_id p @ ''.json''"
  obtain evs j where r: "readJSON env (pack_id p @ ''.json'') = (evs, j)" by (metis prod.exhaust)
  have evs: "evs = [Log (''Reading file '' @ ?path), FsRead ?path]"
    using readJSON_events[of env "pack_id p @ ''.json''"] r by simp
  have k1: "reads_kept (R @ [(b, ?path)]) ts (emit b evs w)"
    using Cons.prems(1,2) by (simp add: reads_kept_def evs fixture_reads_def)
  have one: "\<exists>k \<le> length (p # ps).
      R @ [(b, ?path)] = R @ map (\<lambda>i. (b + i, getDataPath env @ ''/'' @ pack_id ((p # ps) ! i) @ ''.json'')) [0..<k] \<and>
      (res' = Returned \<longrightarrow> k = length (p # ps))" if "res' \<noteq> Returned" for res'
    using that by (intro exI[of _ 1]) simp
  show ?case
  proof (cases j)
    case (Inl e)
    then show ?thesis
      using Cons.prems(3) k1 upsertAssets_read_failed[of env p evs e sch b ps n ts w] r one[of res]
      by (auto simp: reads_kept_def)
  next
    case (Inr doc)
    show ?thesis
    proof (cases doc)
      case (AssetsJSON ok i v t as)
      obtain logged assetPromises where d: "dispatch_assets env (pack_id p) as = (logged, assetPromises)"
        by (metis prod.exhaust)
      have nr: "\<forall>path. FsRead path \<notin> set logged" using dispatch_assets_no_read[of _ env "pack_id p" as] d by simp
      have nt: "\<forall>q. CheckThumbnail q \<notin> set assetPromises"
        using dispatch_assets_no_thumbnail[of _ env "pack_id p" as] d by simp
      have k2: "reads_kept (R @ [(b, ?path)]) (ts @ map (Pair b) assetPromises) (emit b (evs @ logged) w)"
        using k1 nr nt by (auto simp: reads_kept_def emit_append fixture_reads_none)
      obtain a n1 ts1 w1 where aw: "await_all env sch b n (ts @ map (Pair b) assetPromises) (emit b (evs @ logged) w) = (a, n1, ts1, w1)"
        by (metis prod.exhaust)
      have k3: "reads_kept (R @ [(b, ?path)]) ts1 w1"
        by (rule await_all_invariant[where I = "reads_kept (R @ [(b, ?path)])", OF step_reads_kept k2 aw])
      have r': "readJSON env (pack_id p @ ''.json'') = (evs, Inr (AssetsJSON ok i v t as))"
        using r Inr AssetsJSON by simp
      note eq = upsertAssets_batch[OF r' d aw, of ps]
      have fin: ?thesis
        if u: "upsertAssets env sch (Suc b) ps (n1, ts1, w2) = (res, n', ts', w')"
          and k4: "reads_kept (R @ [(b, ?path)]) ts1 w2" for w2
      proof -
        obtain k where k: "k \<le> length ps"
          "fixture_reads (trace w') = (R @ [(b, ?path)]) @
             map (\<lambda>i. (Suc b + i, getDataPath env @ ''/'' @ pack_id (ps ! i) @ ''.json'')) [0..<k]"
          "res = Returned \<longrightarrow> k = length ps"
          using Cons.IH[OF k4 _ u] by auto
        have "map (\<lambda>i. (b + i, getDataPath env @ ''/'' @ pack_id ((p # ps) ! i) @ ''.json'')) [0..<Suc k]
            = (b, ?path) # map (\<lambda>i. (Suc b + i, getDataPath env @ ''/'' @ pack_id (ps ! i) @ ''.json'')) [0..<k]"
          by (simp add: upt_rec[of 0 "Suc k"] map_upt_shift[symmetric] del: upt_Suc)
        then show ?thesis using k by (intro exI[of _ "Suc k"]) simp
      qed
      show ?thesis
      proof (cases a)
        case AllFulfilled
        then show ?thesis using fin[of w1] Cons.prems(3) eq k3 by simp
      next
        case (FirstRejected e)
        have "reads_kept (R @ [(b, ?path)]) ts1 (emit b [Log (''Error saving assets: '' @ message e)] w1)"
          using k3 by (simp add: reads_kept_def fixture_reads_def)
        then show ?thesis using fin[of "emit b [Log (''Error saving assets: '' @ message e)] w1"]
            Cons.prems(3) eq FirstRejected by simp
      next
        case (ProcessCrashed e)
        then show ?thesis using Cons.prems(3) eq k3 one[of res] by (auto simp: reads_kept_def)
      qed
    next
      case (PacksJSON ok packs)
      then show ?thesis
        using Cons.prems(3) k1 upsertAssets_not_assets[of env p evs doc ok packs sch b ps n ts w] r Inr one[of res]
        by (auto simp: reads_kept_def)
    next
      case OtherJSON
      then show ?thesis
        using Cons.prems(3) k1 upsertAssets_not_assets[of env p evs doc _ _ sch b ps n ts w] r Inr one[of res]
        by (auto simp: reads_kept_def)
    qed
  qed
qed


lemma seed_cases [case_names read_failed not_packs pack_rejected pack_crashed asset_phase]:
  obtains
    (read_failed) evs e where "readJSON env ''packs.json'' = (evs, Inl e)"
      "seed env sch w = (Thrown e, 0, [], emit 0 evs w)"
  | (not_packs) ex where "fixture_packs env = []"
      "seed env sch w = (Thrown (Error ''TypeError''), 0, [], emit 0 (fst (readJSON env ''packs.json'') @ ex) w)"
      "ex = [] \<or> ex = [Log ''==== Asset packs ====''] "
  | (pack_rejected) evs ok e n ts w1 where
      "readJSON env ''packs.json'' = (evs, Inr (PacksJSON ok (fixture_packs env)))"
      "await_all env sch 0 0 (map (\<lambda>p. (0, CheckThumbnail p)) (fixture_packs env))
         (emit 0 (evs @ [Log ''==== Asset packs ====''] ) w) = (FirstRejected e, n, ts, w1)"
      "seed env sch w = (Thrown e, n, ts, w1)"
  | (pack_crashed) evs ok e n ts w1 where
      "readJSON env ''packs.json'' = (evs, Inr (PacksJSON ok (fixture_packs env)))"
      "await_all env sch 0 0 (map (\<lambda>p. (0, CheckThumbnail p)) (fixture_packs env))
         (emit 0 (evs @ [Log ''==== Asset packs ====''] ) w) = (ProcessCrashed e, n, ts, w1)"
      "seed env sch w = (Died e, n, ts, w1)"
  | (asset_phase) evs ok n ts w1 where
      "readJSON env ''packs.json'' = (evs, Inr (PacksJSON ok (fixture_packs env)))"
      "await_all env sch 0 0 (map (\<lambda>p. (0, CheckThumbnail p)) (fixture_packs env))
         (emit 0 (evs @ [Log ''==== Asset packs ====''] ) w) = (AllFulfilled, n, ts, w1)"
      "seed env sch w =
         upsertAssets env sch (Suc 0) (fixture_packs env) (n, ts, emit 0 [Log ''==== Assets ====''] w1)"
proof -
  obtain evs j where r: "readJSON env ''packs.json'' = (evs, j)" by (metis prod.exhaust)
  show ?thesis
  proof (cases j)
    case (Inl e)
    then show ?thesis using read_failed seed_read_failed[of env evs e sch w] r by simp
  next
    case (Inr doc)
    show ?thesis
    proof (cases doc)
      case (PacksJSON ok assetPacks)
      have fp: "fixture_packs env = assetPacks" using r Inr PacksJSON by (simp add: fixture_packs_def)
      have r': "readJSON env ''packs.json'' = (evs, Inr (PacksJSON ok (fixture_packs env)))"
        using r Inr PacksJSON fp by simp
      obtain a n1 ts1 w1 where aw: "upsertAssetPacks env sch (fixture_packs env)
          (emit 0 (evs @ [Log ''==== Asset packs ====''] ) w) = (a, n1, ts1, w1)"
        by (metis prod.exhaust)
      have aw': "await_all env sch 0 0 (map (\<lambda>p. (0, CheckThumbnail p)) (fixture_packs env))
          (emit 0 (evs @ [Log ''==== Asset packs ====''] ) w) = (a, n1, ts1, w1)"
        using aw by (simp add: upsertAssetPacks_def)
      note eq = seed_packs[OF r' aw]
      show ?thesis
      proof (cases a)
        case AllFulfilled
        then show ?thesis using asset_phase[OF r'] aw' eq by simp
      next
        case (FirstRejected e)
        then show ?thesis using pack_rejected[OF r'] aw' eq by simp
      next
        case (ProcessCrashed e)
        then show ?thesis using pack_crashed[OF r'] aw' eq by simp
      qed
    next
      case (AssetsJSON ok i v t as)
      have "fixture_packs env = []" using r Inr AssetsJSON by (simp add: fixture_packs_def)
      then show ?thesis
        using not_packs[of "[Log ''==== Asset packs ====''] "] seed_assets_shape[of env evs ok i v t as sch w] r Inr AssetsJSON
        by simp
    next
      case OtherJSON
      have "fixture_packs env = []" using r Inr OtherJSON by (simp add: fixture_packs_def)
      then show ?thesis
        using not_packs[of "[]"] seed_other[of env evs sch w] r Inr OtherJSON by simp
    qed
  qed
qed

lemma seed_reads:
  assumes t: "trace w = []" and s: "seed env sch w = (res, n, ts, w')"
  shows "\<exists>k \<le> length (fixture_packs env).
           fixture_reads (trace w') =
             map (\<lambda>i. (Suc i, getDataPath env @ ''/'' @ pack_id (fixture_packs env ! i) @ ''.json'')) [0..<k] \<and>
           (res = Returned \<longrightarrow> k = length (fixture_packs env))"
proof -
  have zero: ?thesis if "fixture_reads (trace w') = []" "res \<noteq> Returned"
    using that by (intro exI[of _ 0]) simp
  have pk: "reads_kept [] ts1 w1"
    if "await_all env sch 0 0 (map (\<lambda>p. (0, CheckThumbnail p)) (fixture_packs env))
         (emit 0 (evs @ [Log ''==== Asset packs ====''] ) w) = (a, n1, ts1, w1)" for evs a n1 ts1 w1
  proof -
    have i0: "reads_kept [] (map (\<lambda>p. (0, CheckThumbnail p)) (fixture_packs env))
        (emit 0 (evs @ [Log ''==== Asset packs ====''] ) w)"
      using t by (auto simp: reads_kept_def fixture_reads_none)
    show ?thesis
      by (rule await_all_invariant[where I = "reads_kept []", OF step_reads_kept i0 that])
  qed
  show ?thesis
  proof (cases rule: seed_cases[of env sch w])
    case (read_failed evs e)
    then show ?thesis using s t by (intro zero) (auto simp: fixture_reads_none)
  next
    case (not_packs ex)
    then show ?thesis using s t by (intro zero) (auto simp: fixture_reads_none)
  next
    case (pack_rejected evs ok e n1 ts1 w1)
    then show ?thesis using s pk[OF pack_rejected(2)] by (intro zero) (auto simp: reads_kept_def)
  next
    case (pack_crashed evs ok e n1 ts1 w1)
    then show ?thesis using s pk[OF pack_crashed(2)] by (intro zero) (auto simp: reads_kept_def)
  next
    case (asset_phase evs ok n1 ts1 w1)
    have "reads_kept [] ts1 (emit 0 [Log ''==== Assets ====''] w1)"
      using pk[OF asset_phase(2)] by (simp add: reads_kept_def fixture_reads_none)
    from upsertAssets_reads[OF this _ s[unfolded asset_phase(3)]] show ?thesis by simp
  qed
qed


lemma await_all_fulfilled_invariant:
  assumes st: "\<And>r ts w b' pr ts' w'. ts \<noteq> [] \<Longrightarrow> I ts w \<Longrightarrow> step env r ts w = ((b', pr), ts', w') \<Longrightarrow>
                 (\<forall>e. pr \<noteq> Uncaught e) \<Longrightarrow> (\<forall>e. pr = Failed e \<longrightarrow> b' \<noteq> b) \<Longrightarrow> I ts' w'"
    and i: "I ts w"
    and a: "await_all env sch b n ts w = (AllFulfilled, n', ts', w')"
  shows "I ts' w'"
  using i a
proof (induction n ts w rule: await_all_induct[where env = env and sch = sch and b = b])
  case (1 n ts w)
  show ?case
  proof (cases "b \<in> fst ` set ts")
    case False
    then show ?thesis using "1.prems" by (simp add: await_all_done)
  next
    case True
    then have ne: "ts \<noteq> []" by auto
    obtain b1 pr ts1 w1 where s: "step env (sch n) ts w = ((b1, pr), ts1, w1)"
      by (metis prod.exhaust)
    note eq = await_all_step[where sch = sch and n = n, OF True s]
    have u: "\<forall>e. pr \<noteq> Uncaught e" using eq "1.prems"(2) by (auto split: progress.splits)
    have f: "\<forall>e. pr = Failed e \<longrightarrow> b1 \<noteq> b" using eq "1.prems"(2) by (auto split: progress.splits)
    have i1: "I ts1 w1" using st[OF ne "1.prems"(1) s u f] .
    have "await_all env sch b (Suc n) ts1 w1 = (AllFulfilled, n', ts', w')"
      using eq "1.prems"(2) u f by (cases pr) (auto split: if_splits)
    then show ?thesis using "1.IH"[OF True s u f i1] by simp
  qed
qed

lemma advance_goal:
  "advance env r p w = (evs, pr, w') \<Longrightarrow>
   (\<forall>p'. pr = Continue p' \<longrightarrow> goal env p' = goal env p) \<and>
   (pr = Finished \<longrightarrow> (\<forall>e. goal env p = Some e \<longrightarrow> e \<in> set evs))"
  by (cases p) (auto simp: Let_def upsertAssetPack_then_def
      split: option.splits if_splits prod.splits sum.splits settled.splits)

lemma nth_in_remove_nth:
  assumes "k < length xs" and "k \<noteq> i"
  shows "xs ! k \<in> set (remove_nth i xs)"
proof (cases "k < i")
  case True
  then have "take i xs ! k = xs ! k" by simp
  moreover have "k < length (take i xs)" using True assms(1) by simp
  ultimately have "xs ! k \<in> set (take i xs)" by (metis nth_mem)
  then show ?thesis by (simp add: remove_nth_def)
next
  case False
  then have lt: "i < k" using assms(2) by simp
  have "drop (Suc i) xs ! (k - Suc i) = xs ! k" using lt assms(1) by simp
  moreover have "k - Suc i < length (drop (Suc i) xs)" using lt assms(1) by simp
  ultimately have "xs ! k \<in> set (drop (Suc i) xs)" by (metis nth_mem)
  then show ?thesis by (simp add: remove_nth_def)
qed

lemma step_owed:
  assumes ne: "ts \<noteq> []" and inv: "owed env b G ts w" and s: "step env r ts w = ((b', pr), ts', w')"
    and u: "\<forall>e. pr \<noteq> Uncaught e" and f: "\<forall>e. pr = Failed e \<longrightarrow> b' \<noteq> b"
  shows "owed env b G ts' w'"
proof -
  let ?i = "pick r mod length ts"
  have i: "?i < length ts" using ne by simp
  obtain evs w1 where a: "advance env r (snd (ts ! ?i)) w = (evs, pr, w1)"
      and b': "b' = fst (ts ! ?i)"
      and ts': "ts' = (case pr of Continue p' \<Rightarrow> ts[?i := (b', p')] | _ \<Rightarrow> remove_nth ?i ts)"
      and w': "w' = emit b' evs w1"
    using step_shape[OF s] by blast
  have tr: "trace w1 = trace w" using advance_trace[OF a] .
  note g = advance_goal[OF a]
  have "(b, e) \<in> set (trace w') \<or> (\<exists>t \<in> set ts'. fst t = b \<and> goal env (snd t) = Some e)"
    if e: "e \<in> G" for e
  proof (cases "(b, e) \<in> set (trace w)")
    case True
    then show ?thesis by (simp add: w' tr)
  next
    case False
    then obtain t where t: "t \<in> set ts" "fst t = b" "goal env (snd t) = Some e"
      using inv e by (auto simp: owed_def)
    then obtain k where k: "k < length ts" "fst (ts ! k) = b" "goal env (snd (ts ! k)) = Some e"
      by (metis in_set_conv_nth)
    show ?thesis
    proof (cases "k = ?i")
      case True
      show ?thesis
      proof (cases pr)
        case (Continue p')
        then have "(b, p') \<in> set ts'" using ts' i k True b' by (auto simp: set_update_memI)
        moreover have "goal env p' = Some e" using g Continue k True by simp
        ultimately show ?thesis by force
      next
        case Finished
        then have "e \<in> set evs" using g k True by simp
        then show ?thesis using w' b' k True by simp
      next
        case (Failed x)
        then show ?thesis using f k True b' by simp
      next
        case (Uncaught x)
        then show ?thesis using u by simp
      qed
    next
      case False
      have "ts ! k \<in> set ts'"
      proof (cases pr)
        case (Continue p')
        then show ?thesis using ts' False k(1) by (auto simp: in_set_conv_nth nth_list_update intro!: exI[of _ k])
      next
        case Finished
        then show ?thesis using ts' nth_in_remove_nth[OF k(1) False] by simp
      next
        case (Failed x)
        then show ?thesis using ts' nth_in_remove_nth[OF k(1) False] by simp
      next
        case (Uncaught x)
        then show ?thesis using u by simp
      qed
      then show ?thesis using k by auto
    qed
  qed
  then show ?thesis by (simp add: owed_def)
qed

lemma await_all_pays:
  assumes "owed env b G ts w" and "await_all env sch b n ts w = (AllFulfilled, n', ts', w')"
  shows "\<forall>e \<in> G. (b, e) \<in> set (trace w')"
proof -
  have "owed env b G ts' w'"
    by (rule await_all_fulfilled_invariant[where I = "owed env b G", OF step_owed assms])
  moreover have "b \<notin> fst ` set ts'" using assms(2) by (rule await_all_fulfilled)
  ultimately show ?thesis by (force simp: owed_def)
qed

lemma step_grown:
  assumes "ts \<noteq> []" and "grown T ts w" and "step env r ts w = ((b, pr), ts', w')"
  shows "grown T ts' w'"
proof -
  obtain p evs w1 where "w' = emit b evs w1" "trace w1 = trace w"
    using step_picked[OF assms(1,3)] by blast
  then show ?thesis using assms(2) by (auto simp: grown_def)
qed

lemma await_all_grows:
  assumes "await_all env sch b n ts w = (a, n', ts', w')"
  shows "\<exists>rest. trace w' = trace w @ rest"
proof -
  have i0: "grown (trace w) ts w" by (simp add: grown_def)
  have "grown (trace w) ts' w'"
    by (rule await_all_invariant[where I = "grown (trace w)", OF step_grown i0 assms])
  then show ?thesis by (simp add: grown_def)
qed

lemma emit_grown: "grown T ts w \<Longrightarrow> grown T ts' (emit b evs w)"
  by (auto simp: grown_def)

lemma upsertAssets_grows:
  assumes "0 < b" and "upsertAssets env sch b ps (n, ts, w) = (res, n', ts', w')"
  shows "\<exists>rest. trace w' = trace w @ rest"
proof -
  have i0: "(\<lambda>b. grown (trace w)) b ts w" by (simp add: grown_def)
  have "\<exists>b'. (\<lambda>b. grown (trace w)) b' ts' w' \<and> (res = Returned \<longrightarrow> b' = b + length ps)"
  proof (rule upsertAssets_invariant[where I = "\<lambda>b. grown (trace w)" and env = env and P = UNIV,
        OF _ _ _ _ _ i0 assms(2) assms(1)])
    show "\<And>b r ts wa b' pr ts' w'. ts \<noteq> [] \<Longrightarrow> grown (trace w) ts wa \<Longrightarrow>
        step env r ts wa = ((b', pr), ts', w') \<Longrightarrow> grown (trace w) ts' w'"
      by (rule step_grown)
    show "\<And>b ts wa f. grown (trace w) ts wa \<Longrightarrow> grown (trace w) ts (emit b (fst (readJSON env f)) wa)"
      by (rule emit_grown)
    show "\<And>b ts wa p. p \<in> UNIV \<Longrightarrow> grown (trace w) ts wa \<Longrightarrow>
        grown (trace w) (ts @ map (Pair b) (snd (dispatch_assets env (pack_id p) (fixture_assets env p))))
          (emit b (fst (dispatch_assets env (pack_id p) (fixture_assets env p))) wa)"
      by (rule emit_grown)
    show "set ps \<subseteq> UNIV" by simp
    show "\<And>b ts wa. grown (trace w) ts wa \<Longrightarrow> b \<notin> fst ` set ts \<Longrightarrow> grown (trace w) ts wa" .
    show "\<And>b ts wa e. 0 < b \<Longrightarrow> grown (trace w) ts wa \<Longrightarrow>
        grown (trace w) ts (emit b [Log (''Error saving assets: '' @ message e)] wa)"
      by (rule emit_grown)
  qed
  then show ?thesis by (simp add: grown_def)
qed

lemma step_pack_phase:
  assumes "ts \<noteq> []" and "pack_phase ts w" and "step env r ts w = ((b, pr), ts', w')"
  shows "pack_phase ts' w'"
proof -
  obtain p evs w1 where m: "(b, p) \<in> set ts" and w': "w' = emit b evs w1" and tr: "trace w1 = trace w"
    using step_picked[OF assms(1,3)] by blast
  have b: "b = 0" using assms(2) m by (auto simp: pack_phase_def)
  have "fst t = 0" if "t \<in> set ts'" for t
    using step_tasks[OF assms(3) that] assms(2) b by (auto simp: pack_phase_def)
  then show ?thesis using assms(2) b by (auto simp: pack_phase_def w' tr)
qed

lemma dispatch_assets_upserts:
  "a \<in> set as \<Longrightarrow>
   UpsertAsset (assetAttributes pid a) [''id'', ''asset_pack_id''] \<in> set (snd (dispatch_assets env pid as))"
  by (auto simp: dispatch_assets_def dispatch_asset_def Let_def split: option.splits)

lemma upsertAssets_live:
  assumes "0 < b" and "upsertAssets env sch b ps (n, ts, w) = (Returned, n', ts', w')"
  shows "\<forall>i < length ps. \<not> rejected_batch (trace w') (b + i) \<longrightarrow>
           (\<forall>a \<in> set (fixture_assets env (ps ! i)).
              (b + i, UpsertAssetRow (assetAttributes (pack_id (ps ! i)) a) [''id'', ''asset_pack_id''])
                \<in> set (trace w'))"
  using assms
proof (induction ps arbitrary: b n ts w)
  case Nil
  then show ?case by simp
next
  case (Cons p ps)
  obtain evs j where r: "readJSON env (pack_id p @ ''.json'') = (evs, j)" by (metis prod.exhaust)
  show ?case
  proof (cases j)
    case (Inl e)
    then show ?thesis using Cons.prems(2) upsertAssets_read_failed[of env p evs e sch b ps n ts w] r by simp
  next
    case (Inr doc)
    show ?thesis
    proof (cases doc)
      case (AssetsJSON ok i v t as)
      have fa: "fixture_assets env p = as" using r Inr AssetsJSON by (simp add: fixture_assets_def)
      obtain logged assetPromises where d: "dispatch_assets env (pack_id p) as = (logged, assetPromises)"
        by (metis prod.exhaust)
      let ?G = "(\<lambda>a. UpsertAssetRow (assetAttributes (pack_id p) a) [''id'', ''asset_pack_id'']) ` set as"
      let ?w0 = "emit b (evs @ logged) w"
      have o: "owed env b ?G (ts @ map (Pair b) assetPromises) ?w0"
        unfolding owed_def
      proof
        fix e assume "e \<in> ?G"
        then obtain a where a: "a \<in> set as" "e = UpsertAssetRow (assetAttributes (pack_id p) a) [''id'', ''asset_pack_id'']"
          by auto
        have "UpsertAsset (assetAttributes (pack_id p) a) [''id'', ''asset_pack_id''] \<in> set assetPromises"
          using dispatch_assets_upserts[OF a(1), of "pack_id p" env] d by simp
        then have m: "(b, UpsertAsset (assetAttributes (pack_id p) a) [''id'', ''asset_pack_id''])
            \<in> set (ts @ map (Pair b) assetPromises)" by simp
        have g: "goal env (UpsertAsset (assetAttributes (pack_id p) a) [''id'', ''asset_pack_id'']) = Some e"
          unfolding a(2) by (rule goal.simps)
        have "\<exists>t\<in>set (ts @ map (Pair b) assetPromises). fst t = b \<and> goal env (snd t) = Some e"
          by (rule bexI[OF _ m]) (simp only: fst_conv snd_conv g simp_thms)
        then show "(b, e) \<in> set (trace ?w0) \<or>
            (\<exists>t\<in>set (ts @ map (Pair b) assetPromises). fst t = b \<and> goal env (snd t) = Some e)"
          by (rule disjI2)
      qed
      obtain a n1 ts1 w1 where aw: "await_all env sch b n (ts @ map (Pair b) assetPromises) ?w0 = (a, n1, ts1, w1)"
        by (metis prod.exhaust)
      have r': "readJSON env (pack_id p @ ''.json'') = (evs, Inr (AssetsJSON ok i v t as))"
        using r Inr AssetsJSON by simp
      note eq = upsertAssets_batch[OF r' d aw, of ps]
      have fin: ?thesis
        if u: "upsertAssets env sch (Suc b) ps (n1, ts1, w2) = (Returned, n', ts', w')"
          and h: "\<not> rejected_batch (trace w2) b \<longrightarrow> (\<forall>e \<in> ?G. (b, e) \<in> set (trace w2))" for w2
      proof -
        obtain rest where rest: "trace w' = trace w2 @ rest"
          using upsertAssets_grows[OF _ u] by auto
        have hd: "\<not> rejected_batch (trace w') b \<longrightarrow> (\<forall>e \<in> ?G. (b, e) \<in> set (trace w'))"
          using h rest by (auto simp: rejected_batch_def)
        have tl: "\<forall>i < length ps. \<not> rejected_batch (trace w') (Suc b + i) \<longrightarrow>
           (\<forall>a \<in> set (fixture_assets env (ps ! i)).
              (Suc b + i, UpsertAssetRow (assetAttributes (pack_id (ps ! i)) a) [''id'', ''asset_pack_id''])
                \<in> set (trace w'))"
          using Cons.IH[OF _ u] by simp
        show ?thesis
        proof (intro allI impI)
          fix k assume k: "k < length (p # ps)" and nr: "\<not> rejected_batch (trace w') (b + k)"
          show "\<forall>a \<in> set (fixture_assets env ((p # ps) ! k)).
              (b + k, UpsertAssetRow (assetAttributes (pack_id ((p # ps) ! k)) a) [''id'', ''asset_pack_id''])
                \<in> set (trace w')"
          proof (cases k)
            case 0
            then show ?thesis using hd nr fa by auto
          next
            case (Suc k')
            then show ?thesis using tl k nr by simp
          qed
        qed
      qed
      show ?thesis
      proof (cases a)
        case AllFulfilled
        have "\<forall>e \<in> ?G. (b, e) \<in> set (trace w1)"
          using await_all_pays[OF o aw[unfolded AllFulfilled]] .
        then show ?thesis using fin[of w1] Cons.prems(2) eq AllFulfilled by simp
      next
        case (FirstRejected e)
        have "rejected_batch (trace (emit b [Log (''Error saving assets: '' @ message e)] w1)) b"
          by (simp add: rejected_batch_def is_error_log_def)
        then show ?thesis
          using fin[of "emit b [Log (''Error saving assets: '' @ message e)] w1"] Cons.prems(2) eq FirstRejected
          by simp
      next
        case (ProcessCrashed e)
        then show ?thesis using Cons.prems(2) eq by simp
      qed
    next
      case (PacksJSON ok packs)
      then show ?thesis
        using Cons.prems(2) upsertAssets_not_assets[of env p evs doc ok packs sch b ps n ts w] r Inr by simp
    next
      case OtherJSON
      then show ?thesis
        using Cons.prems(2) upsertAssets_not_assets[of env p evs doc _ _ sch b ps n ts w] r Inr by simp
    qed
  qed
qed

lemma step_tags_le:
  assumes ne: "ts \<noteq> []" and i: "\<forall>t \<in> set ts. fst t \<le> (c::nat)" and s: "step env r ts w = ((b', pr), ts', w')"
  shows "\<forall>t \<in> set ts'. fst t \<le> c"
proof
  fix t assume t: "t \<in> set ts'"
  obtain p evs w1 where m: "(b', p) \<in> set ts" using step_picked[OF ne s] by blast
  from step_tasks[OF s t] show "fst t \<le> c" using i m by auto
qed

lemma upsertAssets_tags:
  assumes "\<forall>t \<in> set ts. fst t < b"
    and "upsertAssets env sch b ps (n, ts, w) = (Returned, n', ts', w')"
  shows "\<forall>t \<in> set ts'. fst t < b + length ps"
  using assms
proof (induction ps arbitrary: b n ts w)
  case Nil
  then show ?case by simp
next
  case (Cons p ps)
  obtain evs j where r: "readJSON env (pack_id p @ ''.json'') = (evs, j)" by (metis prod.exhaust)
  show ?case
  proof (cases j)
    case (Inl e)
    then show ?thesis using Cons.prems(2) upsertAssets_read_failed[of env p evs e sch b ps n ts w] r by simp
  next
    case (Inr doc)
    show ?thesis
    proof (cases doc)
      case (AssetsJSON ok i v t as)
      obtain logged assetPromises where d: "dispatch_assets env (pack_id p) as = (logged, assetPromises)"
        by (metis prod.exhaust)
      obtain a n1 ts1 w1 where aw: "await_all env sch b n (ts @ map (Pair b) assetPromises)
          (emit b (evs @ logged) w) = (a, n1, ts1, w1)"
        by (metis prod.exhaust)
      have i0: "\<forall>t \<in> set (ts @ map (Pair b) assetPromises). fst t \<le> b"
        using Cons.prems(1) by auto
      have "\<forall>t \<in> set ts1. fst t \<le> b"
        by (rule await_all_invariant[where I = "\<lambda>ts w. \<forall>t \<in> set ts. fst t \<le> b", OF step_tags_le i0 aw])
      then have lt: "\<forall>t \<in> set ts1. fst t < Suc b" by auto
      have r': "readJSON env (pack_id p @ ''.json'') = (evs, Inr (AssetsJSON ok i v t as))"
        using r Inr AssetsJSON by simp
      note eq = upsertAssets_batch[OF r' d aw, of ps]
      show ?thesis
      proof (cases a)
        case AllFulfilled
        then show ?thesis using Cons.IH[OF lt, of n1 w1] Cons.prems(2) eq by simp
      next
        case (FirstRejected e)
        then show ?thesis
          using Cons.IH[OF lt, of n1 "emit b [Log (''Error saving assets: '' @ message e)] w1"] Cons.prems(2) eq
          by simp
      next
        case (ProcessCrashed e)
        then show ?thesis using Cons.prems(2) eq by simp
      qed
    next
      case (PacksJSON ok packs)
      then show ?thesis
        using Cons.prems(2) upsertAssets_not_assets[of env p evs doc ok packs sch b ps n ts w] r Inr by simp
    next
      case OtherJSON
      then show ?thesis
        using Cons.prems(2) upsertAssets_not_assets[of env p evs doc _ _ sch b ps n ts w] r Inr by simp
    qed
  qed
qed

lemma seed_in_turn_events:
  assumes t: "trace w = []" and j: "j < length (trace (seed_world env sch w))" and i: "i < j"
  shows "fst (trace (seed_world env sch w) ! i) \<le> fst (trace (seed_world env sch w) ! j) \<or>
         rejected_batch (take j (trace (seed_world env sch w))) (fst (trace (seed_world env sch w) ! j))"
    and "\<not> rejected_batch (trace (seed_world env sch w)) 0"
proof -
  let ?tr = "trace (seed_world env sch w)"
  obtain cur where c: "batches_in_turn cur (seed_pending env sch w) (seed_world env sch w)"
    using seed_in_turn[OF t seed_collapse] by blast
  then have ej: "each_justified in_turn [] ?tr" by (simp add: batches_in_turn_def)
  have it: "in_turn (take j ?tr) (?tr ! j)" using each_justified_nth[OF ej j] by simp
  have "?tr ! i \<in> set (take j ?tr)" using i j by (auto simp: in_set_conv_nth intro!: exI[of _ i])
  then show "fst (?tr ! i) \<le> fst (?tr ! j) \<or> rejected_batch (take j ?tr) (fst (?tr ! j))"
    using it by (auto simp: in_turn_def)
  show "\<not> rejected_batch ?tr 0" using c by (simp add: batches_in_turn_def)
qed

lemma pack_phase_start:
  "trace w = [] \<Longrightarrow>
   pack_phase (map (\<lambda>p. (0, CheckThumbnail p)) packs) (emit 0 evs w)"
  by (auto simp: pack_phase_def)

lemma pack_owed_start:
  "owed env 0 ((\<lambda>p. UpsertPackRow (assetPackAttributes env p (getThumbnailFilename env (pack_id p)))) ` set packs)
     (map (\<lambda>p. (0, CheckThumbnail p)) packs) w"
  unfolding owed_def
proof
  fix e
  assume "e \<in> (\<lambda>p. UpsertPackRow (assetPackAttributes env p (getThumbnailFilename env (pack_id p)))) ` set packs"
  then obtain p where p: "p \<in> set packs"
    "e = UpsertPackRow (assetPackAttributes env p (getThumbnailFilename env (pack_id p)))" by auto
  have m: "(0, CheckThumbnail p) \<in> set (map (\<lambda>p. (0, CheckThumbnail p)) packs)" using p(1) by simp
  have g: "goal env (CheckThumbnail p) = Some e" unfolding p(2) by (rule goal.simps)
  have "\<exists>t\<in>set (map (\<lambda>p. (0, CheckThumbnail p)) packs). fst t = 0 \<and> goal env (snd t) = Some e"
    by (rule bexI[OF _ m]) (simp only: fst_conv snd_conv g simp_thms)
  then show "(0, e) \<in> set (trace w) \<or>
      (\<exists>t\<in>set (map (\<lambda>p. (0, CheckThumbnail p)) packs). fst t = 0 \<and> goal env (snd t) = Some e)"
    by (rule disjI2)
qed

lemma seed_pack_barrier:
  assumes t: "trace w = []" and j: "j < length (trace (seed_world env sch w))"
    and pos: "0 < fst (trace (seed_world env sch w) ! j)" and p: "p \<in> set (fixture_packs env)"
  shows "\<exists>i<j. trace (seed_world env sch w) ! i =
           (0, UpsertPackRow (assetPackAttributes env p (getThumbnailFilename env (pack_id p))))"
proof -
  let ?tr = "trace (seed_world env sch w)"
  let ?e = "UpsertPackRow (assetPackAttributes env p (getThumbnailFilename env (pack_id p)))"
  have allzero: False if "\<forall>x \<in> set ?tr. fst x = 0"
    using that j pos by (metis nth_mem less_numeral_extra(3))
  have pk: "pack_phase ts1 w1"
    if "await_all env sch 0 0 (map (\<lambda>p. (0, CheckThumbnail p)) (fixture_packs env))
         (emit 0 (evs @ [Log ''==== Asset packs ====''] ) w) = (a, n1, ts1, w1)" for evs a n1 ts1 w1
    by (rule await_all_invariant[where I = pack_phase, OF step_pack_phase pack_phase_start[OF t] that])
  show ?thesis
  proof (cases rule: seed_cases[of env sch w])
    case (read_failed evs e)
    then show ?thesis using allzero t by (auto simp: seed_world_def)
  next
    case (not_packs ex)
    then show ?thesis using allzero t by (auto simp: seed_world_def)
  next
    case (pack_rejected evs ok e n1 ts1 w1)
    then show ?thesis using allzero pk[OF pack_rejected(2)] by (auto simp: seed_world_def pack_phase_def)
  next
    case (pack_crashed evs ok e n1 ts1 w1)
    then show ?thesis using allzero pk[OF pack_crashed(2)] by (auto simp: seed_world_def pack_phase_def)
  next
    case (asset_phase evs ok n1 ts1 w1)
    have z: "\<forall>x \<in> set (trace w1). fst x = 0" using pk[OF asset_phase(2)] by (simp add: pack_phase_def)
    have paid: "(0, ?e) \<in> set (trace w1)"
      using await_all_pays[OF pack_owed_start asset_phase(2)] p by blast
    then obtain i where i: "i < length (trace w1)" "trace w1 ! i = (0, ?e)"
      by (auto simp: in_set_conv_nth)
    obtain res n2 ts2 w2 where u: "upsertAssets env sch (Suc 0) (fixture_packs env)
        (n1, ts1, emit 0 [Log ''==== Assets ====''] w1) = (res, n2, ts2, w2)"
      by (metis prod.exhaust)
    have w2: "seed_world env sch w = w2" using asset_phase(3) u by (simp add: seed_world_def)
    obtain rest where "trace w2 = trace (emit 0 [Log ''==== Assets ====''] w1) @ rest"
      using upsertAssets_grows[OF _ u] by auto
    then have tr: "?tr = trace w1 @ ((0, Log ''==== Assets ===='') # rest)" using w2 by simp
    have "length (trace w1) \<le> j"
    proof (rule ccontr)
      assume "\<not> length (trace w1) \<le> j"
      then have "j < length (trace w1)" by simp
      then have "?tr ! j \<in> set (trace w1)" using tr by (simp add: nth_append)
      then show False using z pos by auto
    qed
    then have "i < j" using i(1) by simp
    moreover have "?tr ! i = (0, ?e)" using tr i by (simp add: nth_append)
    ultimately show ?thesis by blast
  qed
qed

lemma seed_pending_rejected:
  assumes t: "trace w = []" and r: "fst (seed env sch w) = Returned" and m: "x \<in> set (seed_pending env sch w)"
  shows "rejected_batch (trace (seed_world env sch w)) (fst x)"
proof -
  have s: "seed env sch w = (Returned, fst (snd (seed env sch w)), seed_pending env sch w, seed_world env sch w)"
    using seed_collapse[of env sch w] r by simp
  obtain cur where c: "batches_in_turn cur (seed_pending env sch w) (seed_world env sch w)"
      and cur: "cur = Suc (length (fixture_packs env))"
    using seed_in_turn[OF t s] by blast
  have "fst x < Suc (length (fixture_packs env))"
  proof (cases rule: seed_cases[of env sch w])
    case (read_failed evs e)
    then show ?thesis using r by simp
  next
    case (not_packs ex)
    then show ?thesis using r by simp
  next
    case (pack_rejected evs ok e n1 ts1 w1)
    then show ?thesis using r by simp
  next
    case (pack_crashed evs ok e n1 ts1 w1)
    then show ?thesis using r by simp
  next
    case (asset_phase evs ok n1 ts1 w1)
    have "pack_phase ts1 w1"
      by (rule await_all_invariant[where I = pack_phase, OF step_pack_phase pack_phase_start[OF t] asset_phase(2)])
    moreover have "0 \<notin> fst ` set ts1" using asset_phase(2) by (rule await_all_fulfilled)
    ultimately have lt: "\<forall>t \<in> set ts1. fst t < Suc 0" by (auto simp: pack_phase_def)
    have "\<forall>t \<in> set (seed_pending env sch w). fst t < Suc 0 + length (fixture_packs env)"
      by (rule upsertAssets_tags[OF lt s[unfolded asset_phase(3)]])
    then show ?thesis using m by simp
  qed
  then show ?thesis using c cur m by (auto simp: batches_in_turn_def)
qed

lemma seed_live:
  assumes r: "fst (seed env sch w) = Returned" and i: "i < length (fixture_packs env)"
    and nr: "\<not> rejected_batch (trace (seed_world env sch w)) (Suc i)"
    and a: "a \<in> set (fixture_assets env (fixture_packs env ! i))"
  shows "(Suc i, UpsertAssetRow (assetAttributes (pack_id (fixture_packs env ! i)) a) [''id'', ''asset_pack_id''])
           \<in> set (trace (seed_world env sch w))"
proof -
  have s: "seed env sch w = (Returned, fst (snd (seed env sch w)), seed_pending env sch w, seed_world env sch w)"
    using seed_collapse[of env sch w] r by simp
  show ?thesis
  proof (cases rule: seed_cases[of env sch w])
    case (read_failed evs e)
    then show ?thesis using r by simp
  next
    case (not_packs ex)
    then show ?thesis using r by simp
  next
    case (pack_rejected evs ok e n1 ts1 w1)
    then show ?thesis using r by simp
  next
    case (pack_crashed evs ok e n1 ts1 w1)
    then show ?thesis using r by simp
  next
    case (asset_phase evs ok n1 ts1 w1)
    from upsertAssets_live[OF _ s[unfolded asset_phase(3)]] i nr a show ?thesis by simp
  qed
qed

subsection \<open>Records passed to the upserts\<close>

text \<open>
  An invariant of the tables and the trace is kept by a whole run when it is kept by the
  two upserts, for records the pending operations lead to, and by every other event.
\<close>

lemma advance_effect:
  assumes "advance env r p w = (evs, pr, w')"
  shows "(asset_packs w' = asset_packs w \<and> assets w' = assets w \<and> (\<forall>e \<in> set evs. \<not> is_upsert e)) \<or>
         (\<exists>a. p = UpsertAssetPack a \<and> evs = [UpsertPackRow a] \<and>
              asset_packs w' = upsert [''id''] a (asset_packs w) \<and> assets w' = assets w) \<or>
         (\<exists>a t. p = UpsertAsset a t \<and> evs = [UpsertAssetRow a t] \<and>
              assets w' = upsert t a (assets w) \<and> asset_packs w' = asset_packs w)"
proof (cases p)
  case (CheckThumbnail x)
  have "asset_packs w' = asset_packs w \<and> assets w' = assets w \<and> (\<forall>e \<in> set evs. \<not> is_upsert e)"
    using assms unfolding CheckThumbnail
    by (auto simp: is_upsert_def Let_def upsertAssetPack_then_def readFileSync_def
        split: option.splits if_splits sum.splits)
  then show ?thesis by simp
next
  case (SaveThumbnail x f)
  have "asset_packs w' = asset_packs w \<and> assets w' = assets w \<and> (\<forall>e \<in> set evs. \<not> is_upsert e)"
    using assms unfolding SaveThumbnail
    by (auto simp: is_upsert_def Let_def upsertAssetPack_then_def split: option.splits)
  then show ?thesis by simp
next
  case (UpsertAssetPack x)
  then show ?thesis using assms by (auto simp: is_upsert_def split: option.splits)
next
  case (UpsertAsset x t)
  then show ?thesis using assms by (auto simp: is_upsert_def split: option.splits)
next
  case (CheckContent c)
  have "asset_packs w' = asset_packs w \<and> assets w' = assets w \<and> (\<forall>e \<in> set evs. \<not> is_upsert e)"
    using assms unfolding CheckContent
    by (auto simp: is_upsert_def Let_def downloadAsset_request_def split: option.splits if_splits)
  then show ?thesis by simp
next
  case (DownloadContent c)
  have "asset_packs w' = asset_packs w \<and> assets w' = assets w \<and> (\<forall>e \<in> set evs. \<not> is_upsert e)"
    using assms unfolding DownloadContent
    by (auto simp: is_upsert_def split: settled.splits)
  then show ?thesis by simp
next
  case (SaveContent c f)
  have "asset_packs w' = asset_packs w \<and> assets w' = assets w \<and> (\<forall>e \<in> set evs. \<not> is_upsert e)"
    using assms unfolding SaveContent
    by (auto simp: is_upsert_def Let_def split: option.splits)
  then show ?thesis by simp
qed

lemma tasks_aimD: "tasks_aim env G ts \<Longrightarrow> (b, p) \<in> set ts \<Longrightarrow> goal env p = Some e \<Longrightarrow> G e"
  unfolding tasks_aim_def by (drule bspec, assumption) simp

lemma step_aim:
  assumes ne: "ts \<noteq> []" and inv: "tasks_aim env G ts" and s: "step env r ts w = ((b, pr), ts', w')"
  shows "tasks_aim env G ts'"
  unfolding tasks_aim_def
proof (intro ballI allI impI)
  fix t e
  assume t: "t \<in> set ts'" and g: "goal env (snd t) = Some e"
  obtain p evs w1 where m: "(b, p) \<in> set ts" and a: "advance env r p w = (evs, pr, w1)"
    by (rule step_picked[OF ne s])
  have c: "\<And>p'. pr = Continue p' \<Longrightarrow> goal env p' = goal env p"
    using advance_goal[OF a] by blast
  from step_tasks[OF s t] show "G e"
  proof
    assume "t \<in> set ts"
    then have "(fst t, snd t) \<in> set ts" by simp
    then show ?thesis by (rule tasks_aimD[OF inv _ g])
  next
    assume "\<exists>p'. pr = Continue p' \<and> t = (b, p')"
    then obtain p' where p': "pr = Continue p'" "t = (b, p')" by blast
    have "goal env p = Some e" using g c[OF p'(1)] p'(2) by simp
    then show ?thesis by (rule tasks_aimD[OF inv m])
  qed
qed

lemma quiet_not_upsert: "quiet e \<Longrightarrow> \<not> is_upsert e"
  by (cases e) (simp_all add: quiet_def is_upsert_def)

lemma seed_tables:
  assumes q: "\<And>w w' new. J w \<Longrightarrow> asset_packs w' = asset_packs w \<Longrightarrow> assets w' = assets w \<Longrightarrow>
                trace w' = trace w @ new \<Longrightarrow> (\<forall>x \<in> set new. \<not> is_upsert (snd x)) \<Longrightarrow> J w'"
    and up: "\<And>w w' b a. J w \<Longrightarrow> G (UpsertPackRow a) \<Longrightarrow>
                asset_packs w' = upsert [''id''] a (asset_packs w) \<Longrightarrow> assets w' = assets w \<Longrightarrow>
                trace w' = trace w @ [(b, UpsertPackRow a)] \<Longrightarrow> J w'"
    and ua: "\<And>w w' b a t. J w \<Longrightarrow> G (UpsertAssetRow a t) \<Longrightarrow>
                assets w' = upsert t a (assets w) \<Longrightarrow> asset_packs w' = asset_packs w \<Longrightarrow>
                trace w' = trace w @ [(b, UpsertAssetRow a t)] \<Longrightarrow> J w'"
    and gp: "\<And>p. p \<in> set (fixture_packs env) \<Longrightarrow>
                G (UpsertPackRow (assetPackAttributes env p (getThumbnailFilename env (pack_id p))))"
    and ga: "\<And>p a. p \<in> set (fixture_packs env) \<Longrightarrow> a \<in> set (fixture_assets env p) \<Longrightarrow>
                G (UpsertAssetRow (assetAttributes (pack_id p) a) [''id'', ''asset_pack_id''])"
    and i: "J w"
    and s: "seed env sch w = (res, n, ts, w')"
  shows "J w' \<and> tasks_aim env G ts"
proof -
  let ?I = "\<lambda>(b::nat) ts w. tasks_aim env G ts \<and> J w"
  have em: "J (emit b evs w)" if "J w" "\<forall>e \<in> set evs. \<not> is_upsert e" for b evs w
    by (rule q[OF that(1), where new = "map (Pair b) evs"]) (use that(2) in \<open>auto simp: emit_def\<close>)
  have i0: "?I 0 [] w" using i by (simp add: tasks_aim_def)
  have "\<exists>b'. ?I b' ts w' \<and> (res = Returned \<longrightarrow> b' = Suc (length (fixture_packs env)))"
  proof (rule seed_invariant[where I = ?I and env = env, OF _ _ _ _ _ _ _ i0 s])
    fix b r ts w b' pr ts' w'
    assume ne: "ts \<noteq> []" and inv: "tasks_aim env G ts \<and> J w"
      and st: "step env r ts w = ((b', pr), ts', w')"
    obtain p evs w1 where m: "(b', p) \<in> set ts" and a: "advance env r p w = (evs, pr, w1)"
      and w': "w' = emit b' evs w1" and tr: "trace w1 = trace w"
      by (rule step_picked[OF ne st])
    have g: "G e" if "goal env p = Some e" for e
      using that by (rule tasks_aimD[OF conjunct1[OF inv] m])
    have t': "trace w' = trace w @ map (Pair b') evs" using w' tr by (simp add: emit_def)
    have pk: "asset_packs w' = asset_packs w1" and as: "assets w' = assets w1"
      using w' by (simp_all add: emit_def)
    from advance_effect[OF a] have "J w'"
    proof (elim disjE conjE exE)
      assume "asset_packs w1 = asset_packs w" "assets w1 = assets w" "\<forall>e \<in> set evs. \<not> is_upsert e"
      then show ?thesis using q[OF conjunct2[OF inv], of w' "map (Pair b') evs"] t' pk as by auto
    next
      fix x assume h: "p = UpsertAssetPack x" "evs = [UpsertPackRow x]"
        "asset_packs w1 = upsert [''id''] x (asset_packs w)" "assets w1 = assets w"
      have "G (UpsertPackRow x)" using g h(1) by simp
      then show ?thesis using up[OF conjunct2[OF inv], of x w' b'] t' pk as h by simp
    next
      fix x t assume h: "p = UpsertAsset x t" "evs = [UpsertAssetRow x t]"
        "assets w1 = upsert t x (assets w)" "asset_packs w1 = asset_packs w"
      have "G (UpsertAssetRow x t)" using g h(1) by simp
      then show ?thesis using ua[OF conjunct2[OF inv], of x t w' b'] t' pk as h by simp
    qed
    then show "tasks_aim env G ts' \<and> J w'" using step_aim[OF ne conjunct1[OF inv] st] by simp
  next
    fix b ts w f assume "tasks_aim env G ts \<and> J w"
    then show "tasks_aim env G ts \<and> J (emit b (fst (readJSON env f)) w)"
      using em[of w "fst (readJSON env f)" b] readJSON_quiet[of env f] quiet_not_upsert by blast
  next
    fix b ts w p assume p: "p \<in> set (fixture_packs env)" and inv: "tasks_aim env G ts \<and> J w"
    let ?d = "dispatch_assets env (pack_id p) (fixture_assets env p)"
    have "G e" if "x \<in> set (snd ?d)" "goal env x = Some e" for x e
      using dispatch_assets_kinds[OF that(1)] that(2) ga[OF p] by auto
    then have "tasks_aim env G (ts @ map (Pair b) (snd ?d))"
      using inv by (auto simp: tasks_aim_def)
    moreover have "J (emit b (fst ?d) w)"
      using em[of w "fst ?d" b] inv dispatch_assets_quiet[of env "pack_id p" "fixture_assets env p"]
        quiet_not_upsert by blast
    ultimately show "tasks_aim env G (ts @ map (Pair b) (snd ?d)) \<and> J (emit b (fst ?d) w)" by simp
  next
    fix b ts w assume "tasks_aim env G ts \<and> J w"
    then show "tasks_aim env G ts \<and> J w" .
  next
    fix b ts w e assume "tasks_aim env G ts \<and> J w"
    then show "tasks_aim env G ts \<and> J (emit b [Log (''Error saving assets: '' @ message e)] w)"
      using em[of w "[Log (''Error saving assets: '' @ message e)]" b] by (simp add: is_upsert_def)
  next
    fix w assume "tasks_aim env G [] \<and> J w"
    then show "tasks_aim env G (map (\<lambda>p. (0, CheckThumbnail p)) (fixture_packs env)) \<and> J w"
      using gp by (auto simp: tasks_aim_def)
  next
    fix ts w m assume "tasks_aim env G ts \<and> J w"
    then show "tasks_aim env G ts \<and> J (emit 0 [Log m] w)"
      using em[of w "[Log m]" 0] by (simp add: is_upsert_def)
  qed
  then show ?thesis by blast
qed


lemma seed_fixture_records:
  assumes t: "trace w = []" and s: "seed env sch w = (res, n, ts, w')"
  shows "\<forall>x \<in> set (trace w'). fixture_record env (snd x)"
proof -
  let ?J = "\<lambda>w. \<forall>x \<in> set (trace w). fixture_record env (snd x)"
  have nu: "fixture_record env e" if "\<not> is_upsert e" for e
    using that by (cases e) (simp_all add: fixture_record_def is_upsert_def)
  have "?J w' \<and> tasks_aim env (fixture_record env) ts"
  proof (rule seed_tables[where J = ?J and G = "fixture_record env", OF _ _ _ _ _ _ s])
    fix w w' :: world and new
    assume "?J w" "trace w' = trace w @ new" "\<forall>x \<in> set new. \<not> is_upsert (snd x)"
    then show "?J w'" using nu by auto
  next
    fix w w' :: world and b a
    assume "?J w" "trace w' = trace w @ [(b, UpsertPackRow a)]"
    then show "?J w'" by (auto simp: fixture_record_def)
  next
    fix w w' :: world and b a t
    assume "?J w" "fixture_record env (UpsertAssetRow a t)" "trace w' = trace w @ [(b, UpsertAssetRow a t)]"
    then show "?J w'" by auto
  next
    fix p
    show "fixture_record env (UpsertPackRow (assetPackAttributes env p (getThumbnailFilename env (pack_id p))))"
      by (simp add: fixture_record_def)
  next
    fix p a assume "p \<in> set (fixture_packs env)" "a \<in> set (fixture_assets env p)"
    then show "fixture_record env (UpsertAssetRow (assetAttributes (pack_id p) a) [''id'', ''asset_pack_id''])"
      unfolding fixture_record_def by (simp only: event.case) blast
  next
    show "?J w" using t by simp
  qed
  then show ?thesis by (rule conjunct1)
qed

text \<open>
  C3. In every run of \<open>seed\<close> started with an empty trace, each record passed to the asset
  upsert is the one built from an asset of the fixture file of a pack of \<open>packs.json\<close>, with
  that pack's id and the conflict target \<open>['id', 'asset_pack_id']\<close>; when \<open>seed\<close> returns,
  every asset of the fixture file of a pack whose batch was not rejected has had its record
  upserted. Such a record has the asset's id and the pack's id (the two columns of the
  conflict target), the asset's original url as \<open>model\<close>, the basename of the fixture
  thumbnail as \<open>thumbnail\<close>, and neither \<open>variations\<close> nor \<open>url\<close>; one such upsert is
  started for every asset the loop is given, and it passes the record to the table.
\<close>

theorem asset_record_upserted:
  assumes "trace w = []"
  shows
  "(\<forall>x \<in> set (trace (seed_world env sch w)). \<forall>attributes target.
      snd x = UpsertAssetRow attributes target \<longrightarrow>
      (\<exists>p \<in> set (fixture_packs env). \<exists>a \<in> set (fixture_assets env p).
         attributes = assetAttributes (pack_id p) a \<and> target = [''id'', ''asset_pack_id''])) \<and>
   (fst (seed env sch w) = Returned \<longrightarrow>
      (\<forall>i < length (fixture_packs env).
         \<not> rejected_batch (trace (seed_world env sch w)) (Suc i) \<longrightarrow>
         (\<forall>a \<in> set (fixture_assets env (fixture_packs env ! i)).
            (Suc i, UpsertAssetRow (assetAttributes (pack_id (fixture_packs env ! i)) a)
                      [''id'', ''asset_pack_id''])
              \<in> set (trace (seed_world env sch w))))) \<and>
   (let attributes = assetAttributes pid a in
      map_of attributes ''id'' = Some (JString (asset_id a)) \<and>
      map_of attributes ''asset_pack_id'' = Some (JString pid) \<and>
      row_key [''id'', ''asset_pack_id''] attributes = [Some (JString (asset_id a)), Some (JString pid)] \<and>
      map_of attributes ''model'' = Some (JString (asset_url a)) \<and>
      map_of attributes ''thumbnail'' = Some (JString (basename (asset_thumbnail a))) \<and>
      ''variations'' \<notin> fst ` set attributes \<and>
      ''url'' \<notin> fst ` set attributes) \<and>
   filter (\<lambda>p. case p of UpsertAsset x t \<Rightarrow> True | _ \<Rightarrow> False) (snd (dispatch_assets env pid as)) =
     map (\<lambda>a. UpsertAsset (assetAttributes pid a) [''id'', ''asset_pack_id'']) as \<and>
   (io_error r = None \<longrightarrow>
      advance env r (UpsertAsset (assetAttributes pid a) [''id'', ''asset_pack_id'']) v =
        ([UpsertAssetRow (assetAttributes pid a) [''id'', ''asset_pack_id'']], Finished,
         v\<lparr>assets := upsert [''id'', ''asset_pack_id''] (assetAttributes pid a) (assets v)\<rparr>)) \<and>
   (f \<noteq> [] \<and> CHR ''/'' \<notin> set f \<longrightarrow> basename (d @ ''/'' @ f) = f)"
proof -
  have 0: "\<forall>x \<in> set (trace (seed_world env sch w)). \<forall>attributes target.
      snd x = UpsertAssetRow attributes target \<longrightarrow>
      (\<exists>p \<in> set (fixture_packs env). \<exists>a \<in> set (fixture_assets env p).
         attributes = assetAttributes (pack_id p) a \<and> target = [''id'', ''asset_pack_id''])"
  proof (intro ballI allI impI)
    fix x attributes target
    assume x: "x \<in> set (trace (seed_world env sch w))" and e: "snd x = UpsertAssetRow attributes target"
    have "fixture_record env (snd x)"
      using seed_fixture_records[OF assms seed_collapse] x by (rule bspec)
    then show "\<exists>p \<in> set (fixture_packs env). \<exists>a \<in> set (fixture_assets env p).
         attributes = assetAttributes (pack_id p) a \<and> target = [''id'', ''asset_pack_id'']"
      unfolding e fixture_record_def by (simp only: event.case)
  qed
  have l: "fst (seed env sch w) = Returned \<longrightarrow>
      (\<forall>i < length (fixture_packs env).
         \<not> rejected_batch (trace (seed_world env sch w)) (Suc i) \<longrightarrow>
         (\<forall>a \<in> set (fixture_assets env (fixture_packs env ! i)).
            (Suc i, UpsertAssetRow (assetAttributes (pack_id (fixture_packs env ! i)) a)
                      [''id'', ''asset_pack_id''])
              \<in> set (trace (seed_world env sch w))))"
    using seed_live[of env sch w] by blast
  have 1: "(let attributes = assetAttributes pid a in
      map_of attributes ''id'' = Some (JString (asset_id a)) \<and>
      map_of attributes ''asset_pack_id'' = Some (JString pid) \<and>
      row_key [''id'', ''asset_pack_id''] attributes = [Some (JString (asset_id a)), Some (JString pid)] \<and>
      map_of attributes ''model'' = Some (JString (asset_url a)) \<and>
      map_of attributes ''thumbnail'' = Some (JString (basename (asset_thumbnail a))) \<and>
      ''variations'' \<notin> fst ` set attributes \<and>
      ''url'' \<notin> fst ` set attributes)"
    by (simp add: assetAttributes_def spread_def omit_def DefaultAsset_obj_def row_key_def Let_def)
  have 2: "filter (\<lambda>p. case p of UpsertAsset x t \<Rightarrow> True | _ \<Rightarrow> False) (snd (dispatch_assets env pid as)) =
     map (\<lambda>a. UpsertAsset (assetAttributes pid a) [''id'', ''asset_pack_id'']) as"
    by (induction as) (auto simp: dispatch_assets_def dispatch_asset_def Let_def filter_map comp_def split: option.splits)
  have 3: "io_error r = None \<longrightarrow>
      advance env r (UpsertAsset (assetAttributes pid a) [''id'', ''asset_pack_id'']) v =
        ([UpsertAssetRow (assetAttributes pid a) [''id'', ''asset_pack_id'']], Finished,
         v\<lparr>assets := upsert [''id'', ''asset_pack_id''] (assetAttributes pid a) (assets v)\<rparr>)"
    by simp
  have 4: "f \<noteq> [] \<and> CHR ''/'' \<notin> set f \<longrightarrow> basename (d @ ''/'' @ f) = f"
    using basename_last_component[of f d] by simp
  show ?thesis
    apply (rule conjI[OF 0])
    apply (rule conjI[OF l])
    apply (rule conjI[OF 1])
    apply (rule conjI[OF 2])
    apply (rule conjI[OF 3])
    apply (rule 4)
    done
qed


theorem asset_record_upserted_witness:
  "trace world_empty = [] \<and>
   fixture_packs example_env = [example_pack] \<and>
   fixture_assets example_env example_pack = [example_asset] \<and>
   fst (seed example_env (\<lambda>n. reply_ok) world_empty) = Returned \<and>
   \<not> rejected_batch (trace (seed_world example_env (\<lambda>n. reply_ok) world_empty)) (Suc 0) \<and>
   (Suc 0, UpsertAssetRow (assetAttributes ''p1'' example_asset) [''id'', ''asset_pack_id''])
     \<in> set (trace (seed_world example_env (\<lambda>n. reply_ok) world_empty)) \<and>
   map_of (assetAttributes ''p1'' example_asset) ''id'' = Some (JString ''a1'') \<and>
   map_of (assetAttributes ''p1'' example_asset) ''asset_pack_id'' = Some (JString ''p1'') \<and>
   map_of (assetAttributes ''p1'' example_asset) ''model'' = Some (JString ''http://x/m.glb'') \<and>
   map_of (assetAttributes ''p1'' example_asset) ''thumbnail'' = Some (JString ''a1.png'') \<and>
   io_error reply_ok = None \<and>
   assets (snd (snd (advance example_env reply_ok (UpsertAsset (assetAttributes ''p1'' example_asset) [''id'', ''asset_pack_id'']) world_empty)))
     = [assetAttributes ''p1'' example_asset] \<and>
   ''a1.png'' \<noteq> [] \<and> CHR ''/'' \<notin> set ''a1.png'' \<and> basename (''http://x/thumbs'' @ ''/'' @ ''a1.png'') = ''a1.png''"
proof -
  have t: "trace world_empty = []" by (simp add: world_empty_def)
  have fp: "fixture_packs example_env = [example_pack]" by code_simp
  have fa: "fixture_assets example_env example_pack = [example_asset]" by code_simp
  have r: "fst (seed example_env (\<lambda>n. reply_ok) world_empty) = Returned" by code_simp
  have nr: "\<not> rejected_batch (trace (seed_world example_env (\<lambda>n. reply_ok) world_empty)) (Suc 0)"
    by code_simp
  have pid: "pack_id example_pack = ''p1''" by (simp add: example_pack_def)
  have io: "io_error reply_ok = None" by (simp add: reply_ok_def)
  note th0 = asset_record_upserted[OF t, where env = example_env and sch = "\<lambda>n. reply_ok"
      and pid = "''p1''" and a = example_asset and as = "[example_asset]" and r = reply_ok
      and v = world_empty and f = "''a1.png''" and d = "''http://x/thumbs''"]
  from th0 have live: "\<forall>i < length (fixture_packs example_env).
         \<not> rejected_batch (trace (seed_world example_env (\<lambda>n. reply_ok) world_empty)) (Suc i) \<longrightarrow>
         (\<forall>a \<in> set (fixture_assets example_env (fixture_packs example_env ! i)).
            (Suc i, UpsertAssetRow (assetAttributes (pack_id (fixture_packs example_env ! i)) a)
                      [''id'', ''asset_pack_id''])
              \<in> set (trace (seed_world example_env (\<lambda>n. reply_ok) world_empty)))"
    using r by blast
  have m: "(Suc 0, UpsertAssetRow (assetAttributes ''p1'' example_asset) [''id'', ''asset_pack_id''])
     \<in> set (trace (seed_world example_env (\<lambda>n. reply_ok) world_empty))"
    using live[rule_format, of 0 example_asset] nr by (simp add: fp fa pid)
  from th0 have at: "map_of (assetAttributes ''p1'' example_asset) ''id'' = Some (JString (asset_id example_asset))"
    "map_of (assetAttributes ''p1'' example_asset) ''asset_pack_id'' = Some (JString ''p1'')"
    "map_of (assetAttributes ''p1'' example_asset) ''model'' = Some (JString (asset_url example_asset))"
    "map_of (assetAttributes ''p1'' example_asset) ''thumbnail'' = Some (JString (basename (asset_thumbnail example_asset)))"
    unfolding Let_def by blast+
  from th0 io have ad: "advance example_env reply_ok (UpsertAsset (assetAttributes ''p1'' example_asset) [''id'', ''asset_pack_id'']) world_empty =
        ([UpsertAssetRow (assetAttributes ''p1'' example_asset) [''id'', ''asset_pack_id'']], Finished,
         world_empty\<lparr>assets := upsert [''id'', ''asset_pack_id''] (assetAttributes ''p1'' example_asset) (assets world_empty)\<rparr>)"
    by blast
  have ne: "''a1.png'' \<noteq> [] \<and> CHR ''/'' \<notin> set ''a1.png''" by simp
  from th0 ne have bn: "basename (''http://x/thumbs'' @ ''/'' @ ''a1.png'') = ''a1.png''" by blast
  have ex: "asset_id example_asset = ''a1''" "asset_url example_asset = ''http://x/m.glb''"
    "basename (asset_thumbnail example_asset) = ''a1.png''"
    by (simp_all add: example_asset_def basename_def)
  have as: "assets (snd (snd (advance example_env reply_ok (UpsertAsset (assetAttributes ''p1'' example_asset) [''id'', ''asset_pack_id'']) world_empty)))
     = [assetAttributes ''p1'' example_asset]"
    unfolding ad by (simp add: world_empty_def)
  show ?thesis
    using t fp fa r nr m at[unfolded ex] io as ne bn by (simp only: simp_thms)
qed

text \<open>
  C6. In every run: no event of the pack phase follows an event of the asset phase, and
  when the asset phase starts every pack of \<open>packs.json\<close> has had its row upserted (a
  rejected pack upsert makes \<open>seed\<close> throw, so the asset phase never starts); the fixture
  files are read in the order of \<open>packs.json\<close>, one batch per pack; an operation of a batch
  completes after an event of a later batch only when the wait for its own batch ended
  with a rejection. When \<open>seed\<close> returns, whatever is still in flight belongs to a rejected
  batch, and every asset of a batch that was not rejected has had its upsert completed.
\<close>

theorem batches_in_order:
  assumes "trace w = []"
  shows "(let tr = trace (seed_world env sch w); packs = fixture_packs env in
     (\<forall>i j. i < j \<and> j < length tr \<and> fst (tr ! j) = 0 \<longrightarrow> fst (tr ! i) = 0) \<and>
     (\<forall>j < length tr. 0 < fst (tr ! j) \<longrightarrow>
        (\<forall>p \<in> set packs. \<exists>i<j. tr ! i =
           (0, UpsertPackRow (assetPackAttributes env p (getThumbnailFilename env (pack_id p)))))) \<and>
     (\<exists>k \<le> length packs.
        fixture_reads tr = map (\<lambda>i. (Suc i, getDataPath env @ ''/'' @ pack_id (packs ! i) @ ''.json'')) [0..<k] \<and>
        (fst (seed env sch w) = Returned \<longrightarrow> k = length packs)) \<and>
     (\<forall>i j. i < j \<and> j < length tr \<and> fst (tr ! j) < fst (tr ! i) \<longrightarrow>
        rejected_batch (take j tr) (fst (tr ! j))) \<and>
     (fst (seed env sch w) = Returned \<longrightarrow>
        (\<forall>t \<in> set (seed_pending env sch w). rejected_batch tr (fst t)) \<and>
        (\<forall>i < length packs. \<not> rejected_batch tr (Suc i) \<longrightarrow>
           (\<forall>a \<in> set (fixture_assets env (packs ! i)).
              (Suc i, UpsertAssetRow (assetAttributes (pack_id (packs ! i)) a) [''id'', ''asset_pack_id''])
                \<in> set tr))))"
proof -
  let ?tr = "trace (seed_world env sch w)"
  let ?packs = "fixture_packs env"
  note t = assms
  have b1: "\<forall>i j. i < j \<and> j < length ?tr \<and> fst (?tr ! j) = 0 \<longrightarrow> fst (?tr ! i) = 0"
  proof (intro allI impI)
    fix i j assume h: "i < j \<and> j < length ?tr \<and> fst (?tr ! j) = 0"
    have "rejected_batch (take j ?tr) 0 \<Longrightarrow> rejected_batch ?tr 0"
      using rejected_batch_mono[OF set_take_subset, of j ?tr 0] by simp
    then show "fst (?tr ! i) = 0"
      using seed_in_turn_events[OF t, of j env sch i] h by auto
  qed
  have b2: "\<forall>j < length ?tr. 0 < fst (?tr ! j) \<longrightarrow>
        (\<forall>p \<in> set ?packs. \<exists>i<j. ?tr ! i =
           (0, UpsertPackRow (assetPackAttributes env p (getThumbnailFilename env (pack_id p)))))"
    using seed_pack_barrier[OF t] by blast
  have o: "\<exists>k \<le> length ?packs.
        fixture_reads ?tr = map (\<lambda>i. (Suc i, getDataPath env @ ''/'' @ pack_id (?packs ! i) @ ''.json'')) [0..<k] \<and>
        (fst (seed env sch w) = Returned \<longrightarrow> k = length ?packs)"
    using seed_reads[OF t seed_collapse] .
  have tn: "\<forall>i j. i < j \<and> j < length ?tr \<and> fst (?tr ! j) < fst (?tr ! i) \<longrightarrow>
        rejected_batch (take j ?tr) (fst (?tr ! j))"
  proof (intro allI impI)
    fix i j assume h: "i < j \<and> j < length ?tr \<and> fst (?tr ! j) < fst (?tr ! i)"
    then show "rejected_batch (take j ?tr) (fst (?tr ! j))"
      using seed_in_turn_events(1)[OF t, of j env sch i] by auto
  qed
  have l1: "\<forall>x \<in> set (seed_pending env sch w). rejected_batch ?tr (fst x)"
    if "fst (seed env sch w) = Returned"
    using seed_pending_rejected[OF t that] by blast
  have l2: "\<forall>i < length ?packs. \<not> rejected_batch ?tr (Suc i) \<longrightarrow>
           (\<forall>a \<in> set (fixture_assets env (?packs ! i)).
              (Suc i, UpsertAssetRow (assetAttributes (pack_id (?packs ! i)) a) [''id'', ''asset_pack_id''])
                \<in> set ?tr)"
    if "fst (seed env sch w) = Returned"
    using seed_live[OF that] by blast
  show ?thesis
    unfolding Let_def using b1 b2 o tn l1 l2 by blast
qed

text \<open>
  The wait is not a full join. Here the database rejects the upsert of the first asset of
  the first pack: \<open>Promise.all\<close> rejects at once, the fixture file of the second pack is
  read (event 24), and the upsert of the other asset of the first pack completes after
  that (event 26).
\<close>

theorem batch_not_fully_awaited:
  "trace world_empty = [] \<and>
   trace (seed_world example_env2 schedule_db_error world_empty) ! 24 =
     (2, FsRead ''/seed/2020-05-05/p2.json'') \<and>
   trace (seed_world example_env2 schedule_db_error world_empty) ! 26 =
     (1, UpsertAssetRow (assetAttributes ''p1'' example_asset3) [''id'', ''asset_pack_id''])"
  by code_simp


theorem batches_in_order_witness:
  "trace world_empty = [] \<and>
   rejected_batch (take 26 (trace (seed_world example_env2 schedule_db_error world_empty))) 1 \<and>
   (\<exists>i<24. trace (seed_world example_env2 schedule_db_error world_empty) ! i =
      (0, UpsertPackRow (assetPackAttributes example_env2 example_pack2 ''thumbnail.png''))) \<and>
   fst (seed example_env2 schedule_db_error world_empty) = Returned \<and>
   (2, UpsertAssetRow (assetAttributes ''p2'' example_asset4) [''id'', ''asset_pack_id''])
     \<in> set (trace (seed_world example_env2 schedule_db_error world_empty))"
proof -
  let ?tr = "trace (seed_world example_env2 schedule_db_error world_empty)"
  have t: "trace world_empty = []" by (simp add: world_empty_def)
  have len: "24 < length ?tr" "26 < length ?tr" by code_simp+
  have tags: "fst (?tr ! 24) = 2" "fst (?tr ! 26) = 1" by code_simp+
  have fp: "fixture_packs example_env2 = [example_pack, example_pack2]" by code_simp
  have fa: "fixture_assets example_env2 example_pack2 = [example_asset4]" by code_simp
  have k: "getThumbnailFilename example_env2 ''p2'' = ''thumbnail.png''"
    "pack_id example_pack2 = ''p2''" by code_simp+
  have r: "fst (seed example_env2 schedule_db_error world_empty) = Returned" by code_simp
  have nr: "\<not> rejected_batch ?tr 2" by code_simp
  note th = batches_in_order[OF t, of example_env2 schedule_db_error, unfolded Let_def]
  have 1: "rejected_batch (take 26 ?tr) 1"
  proof -
    have "(24::nat) < 26 \<and> 26 < length ?tr \<and> fst (?tr ! 26) < fst (?tr ! 24)"
      using len tags by simp
    then have "rejected_batch (take 26 ?tr) (fst (?tr ! 26))" using th by blast
    then show ?thesis by (simp add: tags)
  qed
  have 2: "\<exists>i<24. ?tr ! i = (0, UpsertPackRow (assetPackAttributes example_env2 example_pack2 ''thumbnail.png''))"
  proof -
    have "0 < fst (?tr ! 24)" by (simp add: tags)
    moreover have "example_pack2 \<in> set (fixture_packs example_env2)" by (simp add: fp)
    ultimately have "\<exists>i<24. ?tr ! i = (0, UpsertPackRow (assetPackAttributes example_env2 example_pack2
        (getThumbnailFilename example_env2 (pack_id example_pack2))))"
      using th len(1) by blast
    then show ?thesis by (simp add: k)
  qed
  have 3: "(2, UpsertAssetRow (assetAttributes ''p2'' example_asset4) [''id'', ''asset_pack_id'']) \<in> set ?tr"
  proof -
    have "(1::nat) < length (fixture_packs example_env2)" by (simp add: fp)
    moreover have "\<not> rejected_batch ?tr (Suc 1)" using nr by (simp add: numeral_2_eq_2)
    moreover have "example_asset4 \<in> set (fixture_assets example_env2 (fixture_packs example_env2 ! 1))"
      by (simp add: fp fa)
    ultimately have "(Suc 1, UpsertAssetRow (assetAttributes (pack_id (fixture_packs example_env2 ! 1)) example_asset4)
        [''id'', ''asset_pack_id'']) \<in> set ?tr"
      using th r by blast
    then show ?thesis by (simp add: fp k numeral_2_eq_2)
  qed
  show ?thesis using t 1 2 r 3 by simp
qed

subsection \<open>A rejected download\<close>

text \<open>
  C2. The comment of line 126 expects a download that errors out to be caught by the
  \<open>catch\<close> inside the loop over the assets. The download is not awaited inside that
  \<open>try\<close>: its rejection reaches \<open>Promise.all\<close>, which rejects at once, and the \<open>catch\<close> of
  line 132 logs it. Here the pack has two assets and the download for the first is
  rejected before either upsert has completed: \<open>seed\<close> returns with both upserts still
  pending and no asset row written, and \<open>main\<close> exits in that state.
\<close>

theorem download_rejection_escapes_inner_catch:
  "fst (seed example_env3 schedule_download_error world_empty) = Returned \<and>
   seed_pending example_env3 schedule_download_error world_empty =
     [(1, UpsertAsset (assetAttributes ''p1'' example_asset) [''id'', ''asset_pack_id'']),
      (1, UpsertAsset (assetAttributes ''p1'' example_asset2) [''id'', ''asset_pack_id''])] \<and>
   assets (seed_world example_env3 schedule_download_error world_empty) = [] \<and>
   assets (main example_env3 schedule_download_error world_empty) = [] \<and>
   (1, Log ''Error saving assets: aborted'')
     \<in> set (trace (seed_world example_env3 schedule_download_error world_empty)) \<and>
   (1, Log ''Ignoring ERROR: aborted'')
     \<notin> set (trace (seed_world example_env3 schedule_download_error world_empty))"
  by code_simp

subsection \<open>Running the seed again\<close>

text \<open>
  The keys of a table after an upsert: unchanged when a row has the key of the record,
  with the key of the record appended otherwise.
\<close>

lemma map_of_spread:
  "distinct (map fst r) \<Longrightarrow>
   map_of (spread x r) c = (case map_of r c of Some v \<Rightarrow> Some v | None \<Rightarrow> map_of x c)"
proof (induction r arbitrary: x)
  case Nil
  then show ?case by (simp add: spread_def)
next
  case (Cons kv r)
  obtain k v where kv: "kv = (k, v)" by (cases kv)
  have d: "distinct (map fst r)" and nk: "k \<notin> fst ` set r" using Cons.prems kv by auto
  have s: "spread x ((k, v) # r) = spread (AList.update k v x) r" by (simp add: spread_def)
  have n: "map_of r k = None" using nk by (simp add: map_of_eq_None_iff)
  show ?case
    unfolding kv s
    using Cons.IH[OF d, of "AList.update k v x"] n
    by (auto simp: update_conv' split: option.splits)
qed

lemma row_key_spread:
  assumes "distinct (map fst r)" and "row_key t x = row_key t r"
  shows "row_key t (spread x r) = row_key t x"
proof -
  have "map_of (spread x r) c = map_of x c" if "c \<in> set t" for c
  proof -
    have "map_of x c = map_of r c" using assms(2) that by (simp add: row_key_def)
    then show ?thesis by (simp add: map_of_spread[OF assms(1)] split: option.splits)
  qed
  then show ?thesis by (simp add: row_key_def)
qed

lemma upsert_keys:
  "distinct (map fst r) \<Longrightarrow>
   map (row_key t) (upsert t r tbl) =
     (if row_key t r \<in> set (map (row_key t) tbl) then map (row_key t) tbl
      else map (row_key t) tbl @ [row_key t r])"
proof (induction tbl)
  case Nil
  then show ?case by simp
next
  case (Cons x tbl)
  show ?case
  proof (cases "row_key t x = row_key t r")
    case True
    then show ?thesis using row_key_spread[OF Cons.prems True] by simp
  next
    case False
    then show ?thesis using Cons.IH[OF Cons.prems] by auto
  qed
qed

lemma assetPackAttributes_keyed:
  "distinct (map fst (assetPackAttributes env p thumbnail))"
  "row_key [''id''] (assetPackAttributes env p thumbnail) = [Some (JString (pack_id p))]"
  by (simp_all add: assetPackAttributes_def spread_def omit_def DefaultAssetPack_obj_def row_key_def)

lemma assetAttributes_keyed:
  "distinct (map fst (assetAttributes pid a))"
  "row_key [''id'', ''asset_pack_id''] (assetAttributes pid a) = [Some (JString (asset_id a)), Some (JString pid)]"
  by (simp_all add: assetAttributes_def spread_def omit_def DefaultAsset_obj_def row_key_def Let_def)

lemma keyed_fixtures:
  "keyed (UpsertPackRow (assetPackAttributes env p thumbnail))"
  "keyed (UpsertAssetRow (assetAttributes pid a) [''id'', ''asset_pack_id''])"
  by (simp_all add: keyed_def assetPackAttributes_keyed assetAttributes_keyed)

lemma seed_distinct_packs:
  assumes d: "distinct (pack_keys w)" and s: "seed env sch w = (res, n, ts, w')"
  shows "distinct (pack_keys w')"
proof -
  let ?J = "\<lambda>w. distinct (pack_keys w)"
  have "?J w' \<and> tasks_aim env keyed ts"
  proof (rule seed_tables[where J = ?J and G = keyed, OF _ _ _ _ _ d s])
    fix w w' :: world
    assume "?J w" "asset_packs w' = asset_packs w"
    then show "?J w'" by (simp add: pack_keys_def)
  next
    fix w w' :: world and a
    assume j: "?J w" and k: "keyed (UpsertPackRow a)"
      and u: "asset_packs w' = upsert [''id''] a (asset_packs w)"
    have "distinct (map fst a)" using k by (simp add: keyed_def)
    then show "?J w'" using j u by (simp add: pack_keys_def upsert_keys)
  next
    fix w w' :: world
    assume "?J w" "asset_packs w' = asset_packs w"
    then show "?J w'" by (simp add: pack_keys_def)
  next
    fix p show "keyed (UpsertPackRow (assetPackAttributes env p (getThumbnailFilename env (pack_id p))))"
      by (rule keyed_fixtures)
  next
    fix p a show "keyed (UpsertAssetRow (assetAttributes (pack_id p) a) [''id'', ''asset_pack_id''])"
      by (rule keyed_fixtures)
  qed
  then show ?thesis by (rule conjunct1)
qed

lemma seed_distinct_assets:
  assumes d: "distinct (asset_keys w)" and s: "seed env sch w = (res, n, ts, w')"
  shows "distinct (asset_keys w')"
proof -
  let ?J = "\<lambda>w. distinct (asset_keys w)"
  have "?J w' \<and> tasks_aim env keyed ts"
  proof (rule seed_tables[where J = ?J and G = keyed, OF _ _ _ _ _ d s])
    fix w w' :: world
    assume "?J w" "assets w' = assets w"
    then show "?J w'" by (simp add: asset_keys_def)
  next
    fix w w' :: world
    assume "?J w" "assets w' = assets w"
    then show "?J w'" by (simp add: asset_keys_def)
  next
    fix w w' :: world and a t
    assume j: "?J w" and k: "keyed (UpsertAssetRow a t)"
      and u: "assets w' = upsert t a (assets w)"
    have "distinct (map fst a)" "t = [''id'', ''asset_pack_id'']" using k by (simp_all add: keyed_def)
    then show "?J w'" using j u by (simp add: asset_keys_def upsert_keys)
  next
    fix p show "keyed (UpsertPackRow (assetPackAttributes env p (getThumbnailFilename env (pack_id p))))"
      by (rule keyed_fixtures)
  next
    fix p a show "keyed (UpsertAssetRow (assetAttributes (pack_id p) a) [''id'', ''asset_pack_id''])"
      by (rule keyed_fixtures)
  qed
  then show ?thesis by (rule conjunct1)
qed


lemma hits_mono: "hits KP KA e \<Longrightarrow> set KP \<subseteq> set KP' \<Longrightarrow> set KA \<subseteq> set KA' \<Longrightarrow> hits KP' KA' e"
  by (cases e) (auto simp: hits_def)

lemma not_upsert_hits: "\<not> is_upsert e \<Longrightarrow> hits KP KA e"
  by (cases e) (simp_all add: hits_def is_upsert_def)

lemma upsert_keys_grow: "distinct (map fst r) \<Longrightarrow> set (map (row_key t) tbl) \<subseteq> set (map (row_key t) (upsert t r tbl))"
  by (simp only: upsert_keys) auto

lemma upsert_keys_has: "distinct (map fst r) \<Longrightarrow> row_key t r \<in> set (map (row_key t) (upsert t r tbl))"
  by (simp only: upsert_keys) auto

lemma seed_entered:
  assumes t: "trace w = []" and s: "seed env sch w = (res, n, ts, w')"
  shows "\<forall>x \<in> set (trace w'). hits (pack_keys w') (asset_keys w') (snd x)"
proof -
  let ?J = "\<lambda>w. \<forall>x \<in> set (trace w). hits (pack_keys w) (asset_keys w) (snd x)"
  have j0: "?J w" using t by simp
  have "?J w' \<and> tasks_aim env keyed ts"
  proof (rule seed_tables[where J = ?J and G = keyed, OF _ _ _ _ _ j0 s])
    fix w w' :: world and new
    assume j: "?J w" and e: "asset_packs w' = asset_packs w" "assets w' = assets w"
      and tr: "trace w' = trace w @ new" and nu: "\<forall>x \<in> set new. \<not> is_upsert (snd x)"
    have k: "pack_keys w' = pack_keys w" "asset_keys w' = asset_keys w"
      using e by (simp_all add: pack_keys_def asset_keys_def)
    show "?J w'" unfolding k tr using j nu not_upsert_hits by auto
  next
    fix w w' :: world and b a
    assume j: "?J w" and g: "keyed (UpsertPackRow a)"
      and u: "asset_packs w' = upsert [''id''] a (asset_packs w)" and e: "assets w' = assets w"
      and tr: "trace w' = trace w @ [(b, UpsertPackRow a)]"
    have d: "distinct (map fst a)" using g by (simp add: keyed_def)
    have ka: "asset_keys w' = asset_keys w" using e by (simp add: asset_keys_def)
    have sub: "set (pack_keys w) \<subseteq> set (pack_keys w')"
      unfolding pack_keys_def u by (rule upsert_keys_grow[OF d])
    have new: "hits (pack_keys w') (asset_keys w') (UpsertPackRow a)"
      unfolding hits_def pack_keys_def u using upsert_keys_has[OF d] by simp
    have old: "hits (pack_keys w') (asset_keys w') (snd x)" if "x \<in> set (trace w)" for x
      using hits_mono[OF j[rule_format, OF that] sub] ka by simp
    show "?J w'" unfolding tr using old new by auto
  next
    fix w w' :: world and b a tg
    assume j: "?J w" and g: "keyed (UpsertAssetRow a tg)"
      and u: "assets w' = upsert tg a (assets w)" and e: "asset_packs w' = asset_packs w"
      and tr: "trace w' = trace w @ [(b, UpsertAssetRow a tg)]"
    have d: "distinct (map fst a)" and tg: "tg = [''id'', ''asset_pack_id'']"
      using g by (simp_all add: keyed_def)
    have kp: "pack_keys w' = pack_keys w" using e by (simp add: pack_keys_def)
    have sub: "set (asset_keys w) \<subseteq> set (asset_keys w')"
      unfolding asset_keys_def u tg by (rule upsert_keys_grow[OF d])
    have new: "hits (pack_keys w') (asset_keys w') (UpsertAssetRow a tg)"
      unfolding hits_def asset_keys_def u tg using upsert_keys_has[OF d] by simp
    have old: "hits (pack_keys w') (asset_keys w') (snd x)" if "x \<in> set (trace w)" for x
      using hits_mono[OF j[rule_format, OF that] _ sub] kp by simp
    show "?J w'" unfolding tr using old new by auto
  next
    fix p show "keyed (UpsertPackRow (assetPackAttributes env p (getThumbnailFilename env (pack_id p))))"
      by (rule keyed_fixtures)
  next
    fix p a show "keyed (UpsertAssetRow (assetAttributes (pack_id p) a) [''id'', ''asset_pack_id''])"
      by (rule keyed_fixtures)
  qed
  then show ?thesis by (rule conjunct1)
qed

lemma seed_settled:
  assumes kp: "pack_keys w = KP" and ka: "asset_keys w = KA" and t: "trace w = []"
    and gp: "\<And>p. p \<in> set (fixture_packs env) \<Longrightarrow> [Some (JString (pack_id p))] \<in> set KP"
    and ga: "\<And>p a. p \<in> set (fixture_packs env) \<Longrightarrow> a \<in> set (fixture_assets env p) \<Longrightarrow>
               [Some (JString (asset_id a)), Some (JString (pack_id p))] \<in> set KA"
    and s: "seed env sch w = (res, n, ts, w')"
  shows "pack_keys w' = KP \<and> asset_keys w' = KA \<and> (\<forall>x \<in> set (trace w'). hits KP KA (snd x))"
proof -
  let ?J = "\<lambda>w. pack_keys w = KP \<and> asset_keys w = KA \<and> (\<forall>x \<in> set (trace w). hits KP KA (snd x))"
  let ?G = "\<lambda>e. keyed e \<and> hits KP KA e"
  have j0: "?J w" using kp ka t by simp
  have "?J w' \<and> tasks_aim env ?G ts"
  proof (rule seed_tables[where J = ?J and G = ?G, OF _ _ _ _ _ j0 s])
    fix w w' :: world and new
    assume j: "?J w" and e: "asset_packs w' = asset_packs w" "assets w' = assets w"
      and tr: "trace w' = trace w @ new" and nu: "\<forall>x \<in> set new. \<not> is_upsert (snd x)"
    have k: "pack_keys w' = pack_keys w" "asset_keys w' = asset_keys w"
      using e by (simp_all add: pack_keys_def asset_keys_def)
    show "?J w'" unfolding k tr using j nu not_upsert_hits by auto
  next
    fix w w' :: world and b a
    assume j: "?J w" and g: "?G (UpsertPackRow a)"
      and u: "asset_packs w' = upsert [''id''] a (asset_packs w)" and e: "assets w' = assets w"
      and tr: "trace w' = trace w @ [(b, UpsertPackRow a)]"
    have d: "distinct (map fst a)" using g by (simp add: keyed_def)
    have h: "row_key [''id''] a \<in> set (map (row_key [''id'']) (asset_packs w))"
      using g j by (simp add: hits_def pack_keys_def)
    have "pack_keys w' = pack_keys w" unfolding pack_keys_def u upsert_keys[OF d] using h by simp
    moreover have "asset_keys w' = asset_keys w" using e by (simp add: asset_keys_def)
    ultimately show "?J w'" unfolding tr using j g by auto
  next
    fix w w' :: world and b a tg
    assume j: "?J w" and g: "?G (UpsertAssetRow a tg)"
      and u: "assets w' = upsert tg a (assets w)" and e: "asset_packs w' = asset_packs w"
      and tr: "trace w' = trace w @ [(b, UpsertAssetRow a tg)]"
    have d: "distinct (map fst a)" and tg: "tg = [''id'', ''asset_pack_id'']"
      using g by (simp_all add: keyed_def)
    have h: "row_key [''id'', ''asset_pack_id''] a \<in> set (map (row_key [''id'', ''asset_pack_id'']) (assets w))"
      using g j by (simp add: hits_def asset_keys_def tg)
    have "asset_keys w' = asset_keys w" unfolding asset_keys_def u tg upsert_keys[OF d] using h by simp
    moreover have "pack_keys w' = pack_keys w" using e by (simp add: pack_keys_def)
    ultimately show "?J w'" unfolding tr using j g by auto
  next
    fix p assume "p \<in> set (fixture_packs env)"
    then show "?G (UpsertPackRow (assetPackAttributes env p (getThumbnailFilename env (pack_id p))))"
      using gp by (simp add: keyed_fixtures hits_def assetPackAttributes_keyed)
  next
    fix p a assume "p \<in> set (fixture_packs env)" "a \<in> set (fixture_assets env p)"
    then show "?G (UpsertAssetRow (assetAttributes (pack_id p) a) [''id'', ''asset_pack_id''])"
      using ga by (simp add: keyed_fixtures hits_def assetAttributes_keyed)
  qed
  then show ?thesis by blast
qed


lemma checkFile_saveFile: "checkFile k (saveFile k' content acl b) = (k = k' \<or> checkFile k b)"
  by (auto simp: checkFile_def saveFile_def update_conv')

lemma advance_fresh:
  assumes a: "advance env r p w = (evs, pr, w')"
    and m: "\<forall>k. checkFile k store \<longrightarrow> checkFile k (s3 w)"
    and u: "\<forall>k. uploads env p = Some k \<longrightarrow> \<not> checkFile k store"
  shows "(\<forall>k. checkFile k store \<longrightarrow> checkFile k (s3 w')) \<and>
         (\<forall>k content acl. S3Save k content acl \<in> set evs \<longrightarrow> \<not> checkFile k store) \<and>
         (\<forall>p'. pr = Continue p' \<longrightarrow> (\<forall>k. uploads env p' = Some k \<longrightarrow> \<not> checkFile k store))"
proof (cases p)
  case (CheckThumbnail x)
  show ?thesis using a m unfolding CheckThumbnail
    by (auto simp: Let_def upsertAssetPack_then_def readFileSync_def
        split: option.splits if_splits sum.splits)
next
  case (SaveThumbnail x f)
  show ?thesis using a m u unfolding SaveThumbnail
    by (auto simp: Let_def upsertAssetPack_then_def checkFile_saveFile split: option.splits)
next
  case (UpsertAssetPack x)
  show ?thesis using a m unfolding UpsertAssetPack by (auto split: option.splits)
next
  case (UpsertAsset x t)
  show ?thesis using a m unfolding UpsertAsset by (auto split: option.splits)
next
  case (CheckContent c)
  show ?thesis using a m unfolding CheckContent
    by (auto simp: Let_def downloadAsset_request_def split: option.splits if_splits)
next
  case (DownloadContent c)
  show ?thesis using a m u unfolding DownloadContent by (auto split: settled.splits)
next
  case (SaveContent c f)
  show ?thesis using a m u unfolding SaveContent
    by (auto simp: Let_def checkFile_saveFile split: option.splits)
qed

lemma emit_fresh:
  assumes "fresh env store ts w" and "\<forall>k content acl. S3Save k content acl \<notin> set evs"
  shows "fresh env store ts (emit b evs w)"
  using assms by (auto simp: fresh_def emit_def)

lemma step_fresh:
  assumes ne: "ts \<noteq> []" and inv: "fresh env store ts w" and s: "step env r ts w = ((b, pr), ts', w')"
  shows "fresh env store ts' w'"
proof -
  obtain p evs w1 where m: "(b, p) \<in> set ts" and a: "advance env r p w = (evs, pr, w1)"
    and w': "w' = emit b evs w1" and tr: "trace w1 = trace w"
    by (rule step_picked[OF ne s])
  have mono: "\<forall>k. checkFile k store \<longrightarrow> checkFile k (s3 w)" using inv by (simp add: fresh_def)
  have up: "\<forall>k. uploads env p = Some k \<longrightarrow> \<not> checkFile k store"
    using inv m by (force simp: fresh_def)
  note af = advance_fresh[OF a mono up]
  have 1: "\<forall>k. checkFile k store \<longrightarrow> checkFile k (s3 w')"
    using af w' by (simp add: emit_def)
  have 2: "\<forall>x \<in> set (trace w'). \<forall>k content acl. snd x = S3Save k content acl \<longrightarrow> \<not> checkFile k store"
  proof (intro ballI allI impI)
    fix x k content acl
    assume x: "x \<in> set (trace w')" and e: "snd x = S3Save k content acl"
    have "x \<in> set (trace w) \<or> snd x \<in> set evs" using x w' tr by (auto simp: emit_def)
    then show "\<not> checkFile k store"
    proof
      assume "x \<in> set (trace w)"
      then show ?thesis using inv e unfolding fresh_def by blast
    next
      assume "snd x \<in> set evs"
      then show ?thesis using af e by metis
    qed
  qed
  have 3: "\<forall>k. uploads env (snd t) = Some k \<longrightarrow> \<not> checkFile k store" if t: "t \<in> set ts'" for t
  proof -
    from step_tasks[OF s t] show ?thesis
    proof
      assume "t \<in> set ts"
      then show ?thesis using inv unfolding fresh_def by blast
    next
      assume "\<exists>p'. pr = Continue p' \<and> t = (b, p')"
      then obtain p' where p': "pr = Continue p'" "t = (b, p')" by blast
      show ?thesis using af p' by simp
    qed
  qed
  show ?thesis unfolding fresh_def using 1 2 3 by blast
qed

lemma dispatch_assets_no_upload: "p \<in> set (snd (dispatch_assets env pid as)) \<Longrightarrow> uploads env p = None"
  using dispatch_assets_kinds[of p env pid as] by auto

lemma quiet_not_save: "quiet e \<Longrightarrow> e \<noteq> S3Save k content acl"
  by (cases e) (simp_all add: quiet_def)

lemma seed_fresh:
  assumes t: "trace w = []" and s: "seed env sch w = (res, n, ts, w')"
  shows "fresh env (s3 w) ts w'"
proof -
  let ?I = "\<lambda>(b::nat). fresh env (s3 w)"
  have i0: "?I 0 [] w" using t by (simp add: fresh_def)
  have "\<exists>b'. ?I b' ts w' \<and> (res = Returned \<longrightarrow> b' = Suc (length (fixture_packs env)))"
  proof (rule seed_invariant[where I = ?I and env = env, OF _ _ _ _ _ _ _ i0 s])
    fix b r ts v b' pr ts' v'
    assume "ts \<noteq> []" "fresh env (s3 w) ts v" "step env r ts v = ((b', pr), ts', v')"
    then show "fresh env (s3 w) ts' v'" by (rule step_fresh)
  next
    fix b ts v f assume i: "fresh env (s3 w) ts v"
    show "fresh env (s3 w) ts (emit b (fst (readJSON env f)) v)"
      by (rule emit_fresh[OF i]) (use readJSON_quiet[of env f] quiet_not_save in blast)
  next
    fix b ts v p assume i: "fresh env (s3 w) ts v"
    let ?d = "dispatch_assets env (pack_id p) (fixture_assets env p)"
    have "fresh env (s3 w) (ts @ map (Pair b) (snd ?d)) v"
      using i dispatch_assets_no_upload[of _ env "pack_id p" "fixture_assets env p"]
      by (auto simp: fresh_def)
    then show "fresh env (s3 w) (ts @ map (Pair b) (snd ?d)) (emit b (fst ?d) v)"
      by (rule emit_fresh)
        (use dispatch_assets_quiet[of env "pack_id p" "fixture_assets env p"] quiet_not_save in blast)
  next
    fix b ts v assume "fresh env (s3 w) ts v"
    then show "fresh env (s3 w) ts v" .
  next
    fix b ts v e assume i: "fresh env (s3 w) ts v"
    show "fresh env (s3 w) ts (emit b [Log (''Error saving assets: '' @ message e)] v)"
      by (rule emit_fresh[OF i]) simp
  next
    fix v assume "fresh env (s3 w) [] v"
    then show "fresh env (s3 w) (map (\<lambda>p. (0, CheckThumbnail p)) (fixture_packs env)) v"
      by (auto simp: fresh_def)
  next
    fix ts v m assume i: "fresh env (s3 w) ts v"
    show "fresh env (s3 w) ts (emit 0 [Log m] v)"
      by (rule emit_fresh[OF i]) simp
  qed
  then show ?thesis by blast
qed

lemma seed_packs_live:
  assumes r: "fst (seed env sch w) = Returned" and p: "p \<in> set (fixture_packs env)"
  shows "(0, UpsertPackRow (assetPackAttributes env p (getThumbnailFilename env (pack_id p))))
           \<in> set (trace (seed_world env sch w))"
proof (cases rule: seed_cases[of env sch w])
  case (read_failed evs e)
  then show ?thesis using r by simp
next
  case (not_packs ex)
  then show ?thesis using r by simp
next
  case (pack_rejected evs ok e n1 ts1 w1)
  then show ?thesis using r by simp
next
  case (pack_crashed evs ok e n1 ts1 w1)
  then show ?thesis using r by simp
next
  case (asset_phase evs ok n1 ts1 w1)
  let ?e = "UpsertPackRow (assetPackAttributes env p (getThumbnailFilename env (pack_id p)))"
  have paid: "(0, ?e) \<in> set (trace w1)"
    using await_all_pays[OF pack_owed_start asset_phase(2)] p by blast
  obtain res n2 ts2 w2 where u: "upsertAssets env sch (Suc 0) (fixture_packs env)
      (n1, ts1, emit 0 [Log ''==== Assets ====''] w1) = (res, n2, ts2, w2)"
    by (metis prod.exhaust)
  have w2: "seed_world env sch w = w2" using asset_phase(3) u by (simp add: seed_world_def)
  obtain rest where "trace w2 = trace (emit 0 [Log ''==== Assets ====''] w1) @ rest"
    using upsertAssets_grows[OF _ u] by auto
  then have "trace w2 = trace w1 @ ((0, Log ''==== Assets ===='') # rest)" by (simp add: emit_def)
  then show ?thesis using paid w2 by simp
qed

text \<open>
  C1. A first run of \<open>seed\<close> and a second one over identical fixtures, started from the
  tables and the bucket the first one left. No run creates a second row for a key: the
  keys of both tables stay distinct. The second run writes nothing under a key the bucket
  held when it started. When the first run returned and printed no
  \<open>Error saving assets\<close> line, every pack upsert and asset upsert of the second run hits
  an existing key: the keys and the number of rows of both tables are those the first run
  left.
\<close>

theorem seed_twice_idempotent:
  assumes first: "seed env sch1 w = (res1, n1, ts1, w1)"
    and second: "seed env2 sch2 (w1\<lparr>trace := []\<rparr>) = (res2, n2, ts2, w2)"
    and packs: "fixture_packs env2 = fixture_packs env"
    and assets: "\<forall>p \<in> set (fixture_packs env). fixture_assets env2 p = fixture_assets env p"
  shows
  "(distinct (pack_keys w) \<longrightarrow> distinct (pack_keys w1) \<and> distinct (pack_keys w2)) \<and>
   (distinct (asset_keys w) \<longrightarrow> distinct (asset_keys w1) \<and> distinct (asset_keys w2)) \<and>
   (\<forall>x \<in> set (trace w2). \<forall>k content acl. snd x = S3Save k content acl \<longrightarrow> \<not> checkFile k (s3 w1)) \<and>
   (trace w = [] \<and> res1 = Returned \<and> (\<forall>x \<in> set (trace w1). \<not> is_error_log (snd x)) \<longrightarrow>
      pack_keys w2 = pack_keys w1 \<and> asset_keys w2 = asset_keys w1 \<and>
      length (asset_packs w2) = length (asset_packs w1) \<and> length (assets w2) = length (assets w1) \<and>
      (\<forall>x \<in> set (trace w2). \<forall>attributes. snd x = UpsertPackRow attributes \<longrightarrow>
         row_key [''id''] attributes \<in> set (pack_keys w1)) \<and>
      (\<forall>x \<in> set (trace w2). \<forall>attributes target. snd x = UpsertAssetRow attributes target \<longrightarrow>
         target = [''id'', ''asset_pack_id''] \<and>
         row_key [''id'', ''asset_pack_id''] attributes \<in> set (asset_keys w1)))"
proof -
  let ?v = "w1\<lparr>trace := []\<rparr>"
  have kv: "pack_keys ?v = pack_keys w1" "asset_keys ?v = asset_keys w1"
    by (simp_all add: pack_keys_def asset_keys_def)
  have tv: "trace ?v = []" by simp
  have dp: "distinct (pack_keys w) \<longrightarrow> distinct (pack_keys w1) \<and> distinct (pack_keys w2)"
  proof
    assume d: "distinct (pack_keys w)"
    have d1: "distinct (pack_keys w1)" by (rule seed_distinct_packs[OF d first])
    then have "distinct (pack_keys ?v)" by (simp only: kv)
    then have "distinct (pack_keys w2)" using second by (rule seed_distinct_packs)
    then show "distinct (pack_keys w1) \<and> distinct (pack_keys w2)" using d1 by simp
  qed
  have da: "distinct (asset_keys w) \<longrightarrow> distinct (asset_keys w1) \<and> distinct (asset_keys w2)"
  proof
    assume d: "distinct (asset_keys w)"
    have d1: "distinct (asset_keys w1)" by (rule seed_distinct_assets[OF d first])
    then have "distinct (asset_keys ?v)" by (simp only: kv)
    then have "distinct (asset_keys w2)" using second by (rule seed_distinct_assets)
    then show "distinct (asset_keys w1) \<and> distinct (asset_keys w2)" using d1 by simp
  qed
  have up: "\<forall>x \<in> set (trace w2). \<forall>k content acl. snd x = S3Save k content acl \<longrightarrow> \<not> checkFile k (s3 w1)"
    using seed_fresh[OF tv second] by (simp add: fresh_def)
  have kk: "pack_keys w2 = pack_keys w1 \<and> asset_keys w2 = asset_keys w1 \<and>
      length (asset_packs w2) = length (asset_packs w1) \<and> length (assets w2) = length (assets w1) \<and>
      (\<forall>x \<in> set (trace w2). \<forall>attributes. snd x = UpsertPackRow attributes \<longrightarrow>
         row_key [''id''] attributes \<in> set (pack_keys w1)) \<and>
      (\<forall>x \<in> set (trace w2). \<forall>attributes target. snd x = UpsertAssetRow attributes target \<longrightarrow>
         target = [''id'', ''asset_pack_id''] \<and>
         row_key [''id'', ''asset_pack_id''] attributes \<in> set (asset_keys w1))"
    if t: "trace w = []" and r: "res1 = Returned" and nr: "\<forall>x \<in> set (trace w1). \<not> is_error_log (snd x)"
  proof -
    have w1: "seed_world env sch1 w = w1" and r1: "fst (seed env sch1 w) = Returned"
      using first r by (simp_all add: seed_world_def)
    have en: "\<forall>x \<in> set (trace w1). hits (pack_keys w1) (asset_keys w1) (snd x)"
      by (rule seed_entered[OF t first])
    have gp: "[Some (JString (pack_id p))] \<in> set (pack_keys w1)" if p: "p \<in> set (fixture_packs env2)" for p
    proof -
      have "p \<in> set (fixture_packs env)" using p packs by simp
      then have "(0, UpsertPackRow (assetPackAttributes env p (getThumbnailFilename env (pack_id p))))
           \<in> set (trace w1)"
        using seed_packs_live[OF r1] w1 by simp
      then have "hits (pack_keys w1) (asset_keys w1)
           (UpsertPackRow (assetPackAttributes env p (getThumbnailFilename env (pack_id p))))"
        using en by force
      then show ?thesis by (simp add: hits_def assetPackAttributes_keyed)
    qed
    have ga: "[Some (JString (asset_id a)), Some (JString (pack_id p))] \<in> set (asset_keys w1)"
      if p: "p \<in> set (fixture_packs env2)" and a: "a \<in> set (fixture_assets env2 p)" for p a
    proof -
      have p': "p \<in> set (fixture_packs env)" using p packs by simp
      then obtain i where i: "i < length (fixture_packs env)" "fixture_packs env ! i = p"
        by (auto simp: in_set_conv_nth)
      have a': "a \<in> set (fixture_assets env (fixture_packs env ! i))" using a assets p' i(2) by simp
      have "\<not> rejected_batch (trace (seed_world env sch1 w)) (Suc i)"
        using nr w1 by (simp add: rejected_batch_def)
      from seed_live[OF r1 i(1) this a']
      have "(Suc i, UpsertAssetRow (assetAttributes (pack_id p) a) [''id'', ''asset_pack_id''])
           \<in> set (trace w1)" using w1 i(2) by simp
      then have "hits (pack_keys w1) (asset_keys w1)
           (UpsertAssetRow (assetAttributes (pack_id p) a) [''id'', ''asset_pack_id''])"
        using en by force
      then show ?thesis by (simp add: hits_def assetAttributes_keyed)
    qed
    note st = seed_settled[OF kv(1) kv(2) tv gp ga second]
    have k1: "pack_keys w2 = pack_keys w1" and k2: "asset_keys w2 = asset_keys w1"
      and h: "\<forall>x \<in> set (trace w2). hits (pack_keys w1) (asset_keys w1) (snd x)"
      using st by simp_all
    have fr: "\<forall>x \<in> set (trace w2). fixture_record env2 (snd x)"
      by (rule seed_fixture_records[OF tv second])
    have l1: "length (asset_packs w2) = length (asset_packs w1)"
      using arg_cong[OF k1, of length] by (simp add: pack_keys_def)
    have l2: "length (assets w2) = length (assets w1)"
      using arg_cong[OF k2, of length] by (simp add: asset_keys_def)
    have hp: "\<forall>x \<in> set (trace w2). \<forall>attributes. snd x = UpsertPackRow attributes \<longrightarrow>
         row_key [''id''] attributes \<in> set (pack_keys w1)"
    proof (intro ballI allI impI)
      fix x attributes assume x: "x \<in> set (trace w2)" and e: "snd x = UpsertPackRow attributes"
      have "hits (pack_keys w1) (asset_keys w1) (snd x)" using h x by (rule bspec)
      then show "row_key [''id''] attributes \<in> set (pack_keys w1)" unfolding e by (simp add: hits_def)
    qed
    have ha: "\<forall>x \<in> set (trace w2). \<forall>attributes target. snd x = UpsertAssetRow attributes target \<longrightarrow>
         target = [''id'', ''asset_pack_id''] \<and>
         row_key [''id'', ''asset_pack_id''] attributes \<in> set (asset_keys w1)"
    proof (intro ballI allI impI)
      fix x attributes target
      assume x: "x \<in> set (trace w2)" and e: "snd x = UpsertAssetRow attributes target"
      have "hits (pack_keys w1) (asset_keys w1) (snd x)" using h x by (rule bspec)
      then have 1: "row_key target attributes \<in> set (asset_keys w1)" unfolding e by (simp add: hits_def)
      have "fixture_record env2 (snd x)" using fr x by (rule bspec)
      then have 2: "target = [''id'', ''asset_pack_id'']" unfolding e fixture_record_def by auto
      show "target = [''id'', ''asset_pack_id''] \<and>
         row_key [''id'', ''asset_pack_id''] attributes \<in> set (asset_keys w1)"
        using 1 2 by simp
    qed
    show ?thesis using k1 k2 l1 l2 hp ha by (simp only: simp_thms)
  qed
  show ?thesis
    apply (rule conjI[OF dp])
    apply (rule conjI[OF da])
    apply (rule conjI[OF up])
    apply (rule impI)
    apply (rule kk)
      apply simp_all
    done
qed


theorem seed_twice_idempotent_witness:
  "fixture_packs (example_env\<lparr>now := 1\<rparr>) = fixture_packs example_env \<and>
   fixture_assets (example_env\<lparr>now := 1\<rparr>) example_pack = fixture_assets example_env example_pack \<and>
   trace world_empty = [] \<and>
   fst (seed example_env (\<lambda>n. reply_ok) world_empty) = Returned \<and>
   distinct (pack_keys world_empty) \<and> distinct (asset_keys world_empty) \<and>
   pack_keys (seed_world example_env (\<lambda>n. reply_ok) world_empty) = [[Some (JString ''p1'')]] \<and>
   asset_keys (seed_world example_env (\<lambda>n. reply_ok) world_empty) = [[Some (JString ''a1''), Some (JString ''p1'')]] \<and>
   checkFile ''contents/hash1'' (s3 (seed_world example_env (\<lambda>n. reply_ok) world_empty)) \<and>
   checkFile ''asset_packs/p1/thumbnail.png'' (s3 (seed_world example_env (\<lambda>n. reply_ok) world_empty)) \<and>
   distinct (pack_keys (seed_world (example_env\<lparr>now := 1\<rparr>) (\<lambda>n. reply_ok) ((seed_world example_env (\<lambda>n. reply_ok) world_empty)\<lparr>trace := []\<rparr>))) \<and> distinct (asset_keys (seed_world (example_env\<lparr>now := 1\<rparr>) (\<lambda>n. reply_ok) ((seed_world example_env (\<lambda>n. reply_ok) world_empty)\<lparr>trace := []\<rparr>))) \<and>
   pack_keys (seed_world (example_env\<lparr>now := 1\<rparr>) (\<lambda>n. reply_ok) ((seed_world example_env (\<lambda>n. reply_ok) world_empty)\<lparr>trace := []\<rparr>)) = [[Some (JString ''p1'')]] \<and>
   asset_keys (seed_world (example_env\<lparr>now := 1\<rparr>) (\<lambda>n. reply_ok) ((seed_world example_env (\<lambda>n. reply_ok) world_empty)\<lparr>trace := []\<rparr>)) = [[Some (JString ''a1''), Some (JString ''p1'')]] \<and>
   length (asset_packs (seed_world (example_env\<lparr>now := 1\<rparr>) (\<lambda>n. reply_ok) ((seed_world example_env (\<lambda>n. reply_ok) world_empty)\<lparr>trace := []\<rparr>))) = length (asset_packs (seed_world example_env (\<lambda>n. reply_ok) world_empty)) \<and>
   length (assets (seed_world (example_env\<lparr>now := 1\<rparr>) (\<lambda>n. reply_ok) ((seed_world example_env (\<lambda>n. reply_ok) world_empty)\<lparr>trace := []\<rparr>))) = length (assets (seed_world example_env (\<lambda>n. reply_ok) world_empty)) \<and>
   trace (seed_world (example_env\<lparr>now := 1\<rparr>) (\<lambda>n. reply_ok) ((seed_world example_env (\<lambda>n. reply_ok) world_empty)\<lparr>trace := []\<rparr>)) ! 6 = (0, UpsertPackRow (assetPackAttributes (example_env\<lparr>now := 1\<rparr>) example_pack ''thumbnail.png'')) \<and>
   row_key [''id''] (assetPackAttributes (example_env\<lparr>now := 1\<rparr>) example_pack ''thumbnail.png'') \<in> set (pack_keys (seed_world example_env (\<lambda>n. reply_ok) world_empty)) \<and>
   (0, S3Save ''contents/hash1'' ''abcd'' publicRead) \<notin> set (trace (seed_world (example_env\<lparr>now := 1\<rparr>) (\<lambda>n. reply_ok) ((seed_world example_env (\<lambda>n. reply_ok) world_empty)\<lparr>trace := []\<rparr>))) \<and>
   (0, S3Save ''asset_packs/p1/thumbnail.png'' ''PNG'' publicRead) \<notin> set (trace (seed_world (example_env\<lparr>now := 1\<rparr>) (\<lambda>n. reply_ok) ((seed_world example_env (\<lambda>n. reply_ok) world_empty)\<lparr>trace := []\<rparr>)))"
proof -
  have fp: "fixture_packs (example_env\<lparr>now := 1\<rparr>) = fixture_packs example_env" by code_simp
  have fa: "\<forall>p \<in> set (fixture_packs example_env). fixture_assets (example_env\<lparr>now := 1\<rparr>) p = fixture_assets example_env p"
    by code_simp
  have fa1: "fixture_assets (example_env\<lparr>now := 1\<rparr>) example_pack = fixture_assets example_env example_pack" by code_simp
  have t: "trace world_empty = []" by (simp add: world_empty_def)
  have r: "fst (seed example_env (\<lambda>n. reply_ok) world_empty) = Returned" by code_simp
  have nr: "\<forall>x \<in> set (trace (seed_world example_env (\<lambda>n. reply_ok) world_empty)). \<not> is_error_log (snd x)" by code_simp
  have d0: "distinct (pack_keys world_empty)" "distinct (asset_keys world_empty)"
    by (simp_all add: pack_keys_def asset_keys_def world_empty_def)
  have k1: "pack_keys (seed_world example_env (\<lambda>n. reply_ok) world_empty) = [[Some (JString ''p1'')]]"
    "asset_keys (seed_world example_env (\<lambda>n. reply_ok) world_empty) = [[Some (JString ''a1''), Some (JString ''p1'')]]" by code_simp+
  have c1: "checkFile ''contents/hash1'' (s3 (seed_world example_env (\<lambda>n. reply_ok) world_empty))"
    "checkFile ''asset_packs/p1/thumbnail.png'' (s3 (seed_world example_env (\<lambda>n. reply_ok) world_empty))" by code_simp+
  have l6: "6 < length (trace (seed_world (example_env\<lparr>now := 1\<rparr>) (\<lambda>n. reply_ok) ((seed_world example_env (\<lambda>n. reply_ok) world_empty)\<lparr>trace := []\<rparr>)))" by code_simp
  have e6: "trace (seed_world (example_env\<lparr>now := 1\<rparr>) (\<lambda>n. reply_ok) ((seed_world example_env (\<lambda>n. reply_ok) world_empty)\<lparr>trace := []\<rparr>)) ! 6 = (0, UpsertPackRow (assetPackAttributes (example_env\<lparr>now := 1\<rparr>) example_pack ''thumbnail.png''))"
    by code_simp
  note th0 = seed_twice_idempotent[OF seed_collapse[of example_env "\<lambda>n. reply_ok" world_empty]
      seed_collapse[of "(example_env\<lparr>now := 1\<rparr>)" "\<lambda>n. reply_ok" "(seed_world example_env (\<lambda>n. reply_ok) world_empty)\<lparr>trace := []\<rparr>"] fp fa]
  from th0 d0 have d2: "distinct (pack_keys (seed_world (example_env\<lparr>now := 1\<rparr>) (\<lambda>n. reply_ok) ((seed_world example_env (\<lambda>n. reply_ok) world_empty)\<lparr>trace := []\<rparr>)))" "distinct (asset_keys (seed_world (example_env\<lparr>now := 1\<rparr>) (\<lambda>n. reply_ok) ((seed_world example_env (\<lambda>n. reply_ok) world_empty)\<lparr>trace := []\<rparr>)))" by blast+
  from th0 have up: "\<forall>x \<in> set (trace (seed_world (example_env\<lparr>now := 1\<rparr>) (\<lambda>n. reply_ok) ((seed_world example_env (\<lambda>n. reply_ok) world_empty)\<lparr>trace := []\<rparr>))). \<forall>k content acl. snd x = S3Save k content acl \<longrightarrow>
      \<not> checkFile k (s3 (seed_world example_env (\<lambda>n. reply_ok) world_empty))" by blast
  from th0 t r nr have kk: "pack_keys (seed_world (example_env\<lparr>now := 1\<rparr>) (\<lambda>n. reply_ok) ((seed_world example_env (\<lambda>n. reply_ok) world_empty)\<lparr>trace := []\<rparr>)) = pack_keys (seed_world example_env (\<lambda>n. reply_ok) world_empty)" "asset_keys (seed_world (example_env\<lparr>now := 1\<rparr>) (\<lambda>n. reply_ok) ((seed_world example_env (\<lambda>n. reply_ok) world_empty)\<lparr>trace := []\<rparr>)) = asset_keys (seed_world example_env (\<lambda>n. reply_ok) world_empty)"
    "length (asset_packs (seed_world (example_env\<lparr>now := 1\<rparr>) (\<lambda>n. reply_ok) ((seed_world example_env (\<lambda>n. reply_ok) world_empty)\<lparr>trace := []\<rparr>))) = length (asset_packs (seed_world example_env (\<lambda>n. reply_ok) world_empty))"
    "length (assets (seed_world (example_env\<lparr>now := 1\<rparr>) (\<lambda>n. reply_ok) ((seed_world example_env (\<lambda>n. reply_ok) world_empty)\<lparr>trace := []\<rparr>))) = length (assets (seed_world example_env (\<lambda>n. reply_ok) world_empty))"
    by blast+
  from th0 t r nr have hp: "\<forall>x \<in> set (trace (seed_world (example_env\<lparr>now := 1\<rparr>) (\<lambda>n. reply_ok) ((seed_world example_env (\<lambda>n. reply_ok) world_empty)\<lparr>trace := []\<rparr>))). \<forall>attributes. snd x = UpsertPackRow attributes \<longrightarrow>
         row_key [''id''] attributes \<in> set (pack_keys (seed_world example_env (\<lambda>n. reply_ok) world_empty))" by blast
  have m6: "trace (seed_world (example_env\<lparr>now := 1\<rparr>) (\<lambda>n. reply_ok) ((seed_world example_env (\<lambda>n. reply_ok) world_empty)\<lparr>trace := []\<rparr>)) ! 6 \<in> set (trace (seed_world (example_env\<lparr>now := 1\<rparr>) (\<lambda>n. reply_ok) ((seed_world example_env (\<lambda>n. reply_ok) world_empty)\<lparr>trace := []\<rparr>)))" using l6 by (rule nth_mem)
  have h6: "row_key [''id''] (assetPackAttributes (example_env\<lparr>now := 1\<rparr>) example_pack ''thumbnail.png'') \<in> set (pack_keys (seed_world example_env (\<lambda>n. reply_ok) world_empty))"
    using hp[rule_format, OF m6, of "assetPackAttributes (example_env\<lparr>now := 1\<rparr>) example_pack ''thumbnail.png''"] e6 by simp
  have n1: "(0, S3Save ''contents/hash1'' ''abcd'' publicRead) \<notin> set (trace (seed_world (example_env\<lparr>now := 1\<rparr>) (\<lambda>n. reply_ok) ((seed_world example_env (\<lambda>n. reply_ok) world_empty)\<lparr>trace := []\<rparr>)))"
    using up c1(1) by force
  have n2: "(0, S3Save ''asset_packs/p1/thumbnail.png'' ''PNG'' publicRead) \<notin> set (trace (seed_world (example_env\<lparr>now := 1\<rparr>) (\<lambda>n. reply_ok) ((seed_world example_env (\<lambda>n. reply_ok) world_empty)\<lparr>trace := []\<rparr>)))"
    using up c1(2) by force
  note p2 = trans[OF kk(1) k1(1)] trans[OF kk(2) k1(2)]
  show ?thesis
    by (intro conjI fp fa1 t r d0 k1 c1 d2 p2 kk(3) kk(4) e6 h6 n1 n2)
qed

text \<open>
  The run of the second data set in which the database rejects the upsert of asset \<open>a2\<close>:
  \<open>seed\<close> returns, with the rows of \<open>a3\<close> and \<open>b1\<close> in the table. A second run over the same
  fixtures, in which nothing fails, inserts the row of \<open>a2\<close>.
\<close>

theorem rerun_inserts_missing_record:
  "fst (seed example_env2 schedule_db_error world_empty) = Returned \<and>
   asset_keys (seed_world example_env2 schedule_db_error world_empty) =
     [[Some (JString ''a3''), Some (JString ''p1'')], [Some (JString ''b1''), Some (JString ''p2'')]] \<and>
   trace (seed_world example_env2 (\<lambda>n. reply_ok) ((seed_world example_env2 schedule_db_error world_empty)\<lparr>trace := []\<rparr>)) ! 16 = (1, UpsertAssetRow (assetAttributes ''p1'' example_asset2) [''id'', ''asset_pack_id'']) \<and>
   row_key [''id'', ''asset_pack_id''] (assetAttributes ''p1'' example_asset2) \<notin> set (asset_keys (seed_world example_env2 schedule_db_error world_empty)) \<and>
   asset_keys (seed_world example_env2 (\<lambda>n. reply_ok) ((seed_world example_env2 schedule_db_error world_empty)\<lparr>trace := []\<rparr>)) =
     [[Some (JString ''a3''), Some (JString ''p1'')], [Some (JString ''b1''), Some (JString ''p2'')],
      [Some (JString ''a2''), Some (JString ''p1'')]] \<and>
   length (assets (seed_world example_env2 (\<lambda>n. reply_ok) ((seed_world example_env2 schedule_db_error world_empty)\<lparr>trace := []\<rparr>))) = Suc (length (assets (seed_world example_env2 schedule_db_error world_empty)))"
proof -
  have 1: "fst (seed example_env2 schedule_db_error world_empty) = Returned" by code_simp
  have 2: "asset_keys (seed_world example_env2 schedule_db_error world_empty) =
     [[Some (JString ''a3''), Some (JString ''p1'')], [Some (JString ''b1''), Some (JString ''p2'')]]"
    by code_simp
  have 3: "trace (seed_world example_env2 (\<lambda>n. reply_ok) ((seed_world example_env2 schedule_db_error world_empty)\<lparr>trace := []\<rparr>)) ! 16 = (1, UpsertAssetRow (assetAttributes ''p1'' example_asset2) [''id'', ''asset_pack_id''])"
    by code_simp
  have 4: "row_key [''id'', ''asset_pack_id''] (assetAttributes ''p1'' example_asset2) \<notin> set (asset_keys (seed_world example_env2 schedule_db_error world_empty))"
    by code_simp
  have 5: "asset_keys (seed_world example_env2 (\<lambda>n. reply_ok) ((seed_world example_env2 schedule_db_error world_empty)\<lparr>trace := []\<rparr>)) =
     [[Some (JString ''a3''), Some (JString ''p1'')], [Some (JString ''b1''), Some (JString ''p2'')],
      [Some (JString ''a2''), Some (JString ''p1'')]]"
    by code_simp
  have 6: "length (assets (seed_world example_env2 (\<lambda>n. reply_ok) ((seed_world example_env2 schedule_db_error world_empty)\<lparr>trace := []\<rparr>))) = Suc (length (assets (seed_world example_env2 schedule_db_error world_empty)))" by code_simp
  show ?thesis by (intro conjI 1 2 3 4 5 6)
qed

end
